theory Spec2Isabelle
  imports Main "HOL-Library.AList"
begin

section \<open>Python values and exceptions\<close>

text \<open>
  The job of \<^verbatim>\<open>mlb_fetch_schedule.py\<close> works on parsed JSON: the schedule response, the
  list of odds events and the records it builds are Python dicts, lists and strings.
  A JSON value is modelled as Python holds it after \<^verbatim>\<open>response.json()\<close>. A dict is an
  association list in insertion order. A \<^typ>\<open>char\<close> stands for one code point below 256.
  \<open>JFloat m e\<close> is the float \<open>m\<close> times ten to the power \<open>e\<close>; the job never computes with a number.
\<close>

datatype json =
    JNull
  | JBool bool
  | JInt int
  | JFloat int int
  | JStr string
  | JArr "json list"
  | JObj "(string \<times> json) list"

type_synonym dict = "(string \<times> json) list"

text \<open>
  The exception classes the job can meet. All but the last two derive from
  \<^verbatim>\<open>Exception\<close>; \<^verbatim>\<open>KeyboardInterrupt\<close> and \<^verbatim>\<open>SystemExit\<close> derive from
  \<^verbatim>\<open>BaseException\<close> only. \<open>RequestException\<close> is the class of the \<^verbatim>\<open>requests\<close>
  library, \<open>PlainException\<close> is \<^verbatim>\<open>Exception\<close> itself (raised by \<^verbatim>\<open>fetch_events\<close>),
  \<open>OtherException\<close> any further subclass of \<^verbatim>\<open>Exception\<close> a collaborator raises.
\<close>

datatype py_exc =
    IndexError
  | KeyError
  | TypeError
  | AttributeError
  | ValueError
  | OverflowError
  | OSError
  | RequestException
  | PlainException
  | OtherException
  | KeyboardInterrupt
  | SystemExit

fun isinstance_Exception :: "py_exc \<Rightarrow> bool" where
  "isinstance_Exception KeyboardInterrupt = False"
| "isinstance_Exception SystemExit = False"
| "isinstance_Exception _ = True"

text \<open>A call either raises (\<open>Inl\<close>) or returns (\<open>Inr\<close>); \<open>bnd\<close> runs the next statement.\<close>

definition bnd :: "py_exc + 'a \<Rightarrow> ('a \<Rightarrow> py_exc + 'b) \<Rightarrow> py_exc + 'b" where
  "bnd r f = (case r of Inl e \<Rightarrow> Inl e | Inr v \<Rightarrow> f v)"

definition returns :: "py_exc + 'a \<Rightarrow> bool" where
  "returns r = (case r of Inl e \<Rightarrow> False | Inr v \<Rightarrow> True)"

text \<open>\<^verbatim>\<open>x.get(key, [])\<close>: only a dict has the method.\<close>

fun py_get :: "json \<Rightarrow> string \<Rightarrow> py_exc + json" where
  "py_get (JObj d) k = (case map_of d k of Some v \<Rightarrow> Inr v | None \<Rightarrow> Inr (JArr []))"
| "py_get _ k = Inl AttributeError"

text \<open>
  \<^verbatim>\<open>x[0]\<close>: the first element of a list, the first character of a string; a dict
  of parsed JSON has string keys only, so the key \<open>0\<close> is missing.
\<close>

fun py_first :: "json \<Rightarrow> py_exc + json" where
  "py_first (JArr []) = Inl IndexError"
| "py_first (JArr (x # xs)) = Inr x"
| "py_first (JStr []) = Inl IndexError"
| "py_first (JStr (c # cs)) = Inr (JStr [c])"
| "py_first (JObj d) = Inl KeyError"
| "py_first _ = Inl TypeError"

text \<open>\<^verbatim>\<open>x['key']\<close> with a string key.\<close>

fun py_getitem :: "json \<Rightarrow> string \<Rightarrow> py_exc + json" where
  "py_getitem (JObj d) k = (case map_of d k of Some v \<Rightarrow> Inr v | None \<Rightarrow> Inl KeyError)"
| "py_getitem _ k = Inl TypeError"

text \<open>\<^verbatim>\<open>for x in v\<close>: the elements of a list, the keys of a dict, the characters of a string.\<close>

fun py_iter :: "json \<Rightarrow> py_exc + json list" where
  "py_iter (JArr xs) = Inr xs"
| "py_iter (JObj d) = Inr (map (\<lambda>p. JStr (fst p)) d)"
| "py_iter (JStr s) = Inr (map (\<lambda>c. JStr [c]) s)"
| "py_iter _ = Inl TypeError"

text \<open>\<^verbatim>\<open>str.lower\<close> on code points below 256: A to Z and the accented capitals.\<close>

definition lower_char :: "char \<Rightarrow> char" where
  "lower_char c =
     (let n = (of_char c :: nat)
      in if (65 \<le> n \<and> n \<le> 90) \<or> (192 \<le> n \<and> n \<le> 222 \<and> n \<noteq> 215)
         then char_of (n + 32) else c)"

fun py_lower :: "json \<Rightarrow> py_exc + string" where
  "py_lower (JStr s) = Inr (map lower_char s)"
| "py_lower _ = Inl AttributeError"

section \<open>Dates and times\<close>

text \<open>
  A \<^verbatim>\<open>datetime.datetime\<close> value, and the proleptic Gregorian calendar of the
  \<^verbatim>\<open>datetime\<close> module: day 1 is 0001-01-01, the last day is 9999-12-31.
\<close>

record datetime =
  year :: int
  month :: int
  day :: int
  hour :: int
  minute :: int
  second :: int
  microsecond :: int

definition is_leap :: "int \<Rightarrow> bool" where
  "is_leap y = (y mod 4 = 0 \<and> (y mod 100 \<noteq> 0 \<or> y mod 400 = 0))"

definition days_in_month :: "int \<Rightarrow> int \<Rightarrow> int" where
  "days_in_month y m =
     (if m = 2 then (if is_leap y then 29 else 28)
      else if m = 4 \<or> m = 6 \<or> m = 9 \<or> m = 11 then 30 else 31)"

definition days_before_year :: "int \<Rightarrow> int" where
  "days_before_year y = (y - 1) * 365 + (y - 1) div 4 - (y - 1) div 100 + (y - 1) div 400"

definition days_before_month :: "int \<Rightarrow> int \<Rightarrow> int" where
  "days_before_month y m =
     [0, 0, 31, 59, 90, 120, 151, 181, 212, 243, 273, 304, 334] ! nat m
       + (if m > 2 \<and> is_leap y then 1 else 0)"

definition ymd2ord :: "int \<Rightarrow> int \<Rightarrow> int \<Rightarrow> int" where
  "ymd2ord y m d = days_before_year y + days_before_month y m + d"

definition MAXORDINAL :: int where
  "MAXORDINAL = 3652059"

definition valid_date :: "int \<Rightarrow> int \<Rightarrow> int \<Rightarrow> bool" where
  "valid_date y m d =
     (1 \<le> y \<and> y \<le> 9999 \<and> 1 \<le> m \<and> m \<le> 12 \<and> 1 \<le> d \<and> d \<le> days_in_month y m)"

definition valid_datetime :: "datetime \<Rightarrow> bool" where
  "valid_datetime t =
     (valid_date (year t) (month t) (day t) \<and> 0 \<le> hour t \<and> hour t < 24
      \<and> 0 \<le> minute t \<and> minute t < 60 \<and> 0 \<le> second t \<and> second t < 60
      \<and> 0 \<le> microsecond t \<and> microsecond t < 1000000)"

definition toordinal :: "datetime \<Rightarrow> int" where
  "toordinal t = ymd2ord (year t) (month t) (day t)"

definition seconds_of_day :: "datetime \<Rightarrow> int" where
  "seconds_of_day t = hour t * 3600 + minute t * 60 + second t"

text \<open>The calendar day after and before a date, as a datetime with the same time of day.\<close>

definition date_succ :: "datetime \<Rightarrow> datetime" where
  "date_succ t =
     (if day t < days_in_month (year t) (month t) then t\<lparr>day := day t + 1\<rparr>
      else if month t < 12 then t\<lparr>month := month t + 1, day := 1\<rparr>
      else t\<lparr>year := year t + 1, month := 1, day := 1\<rparr>)"

definition date_pred :: "datetime \<Rightarrow> datetime" where
  "date_pred t =
     (if 1 < day t then t\<lparr>day := day t - 1\<rparr>
      else if 1 < month t then t\<lparr>month := month t - 1, day := days_in_month (year t) (month t - 1)\<rparr>
      else t\<lparr>year := year t - 1, month := 12, day := 31\<rparr>)"

definition shift_days :: "int \<Rightarrow> datetime \<Rightarrow> datetime" where
  "shift_days k t = (if 0 \<le> k then (date_succ ^^ nat k) t else (date_pred ^^ nat (- k)) t)"

text \<open>
  \<^verbatim>\<open>dt + timedelta(days=dd, seconds=ss)\<close>: the seconds carry into the days, and a
  result outside day 1 to day \<open>MAXORDINAL\<close> raises \<^verbatim>\<open>OverflowError\<close>.
\<close>

definition datetime_add :: "datetime \<Rightarrow> int \<Rightarrow> int \<Rightarrow> py_exc + datetime" where
  "datetime_add t dd ss =
     (let total = seconds_of_day t + ss;
          carry = dd + total div 86400;
          rest = total mod 86400
      in if 0 < toordinal t + carry \<and> toordinal t + carry \<le> MAXORDINAL
         then Inr ((shift_days carry t)
                     \<lparr>hour := rest div 3600, minute := (rest mod 3600) div 60, second := rest mod 60\<rparr>)
         else Inl OverflowError)"

subsection \<open>strftime\<close>

definition digit_char :: "int \<Rightarrow> char" where
  "digit_char k = ''0123456789'' ! nat k"

text \<open>\<^verbatim>\<open>%m %d %H %M %S\<close>: two digits, zero padded.\<close>

definition fmt2 :: "int \<Rightarrow> string" where
  "fmt2 n = [digit_char (n div 10), digit_char (n mod 10)]"

text \<open>\<^verbatim>\<open>%Y\<close>: the year in decimal; the C library of Linux does not pad a year below 1000.\<close>

fun decimal :: "nat \<Rightarrow> string" where
  "decimal n = (if n < 10 then [digit_char (int n)]
                else decimal (n div 10) @ [digit_char (int (n mod 10))])"

declare decimal.simps [simp del]

definition fmt_Y :: "int \<Rightarrow> string" where
  "fmt_Y y = decimal (nat y)"

text \<open>\<^verbatim>\<open>strftime('%Y-%m-%dT%H:%M:%SZ')\<close> and \<^verbatim>\<open>strftime("EST %H:%M")\<close>.\<close>

definition strftime_iso :: "datetime \<Rightarrow> string" where
  "strftime_iso t =
     fmt_Y (year t) @ ''-'' @ fmt2 (month t) @ ''-'' @ fmt2 (day t) @ ''T''
       @ fmt2 (hour t) @ '':'' @ fmt2 (minute t) @ '':'' @ fmt2 (second t) @ ''Z''"

definition strftime_est :: "datetime \<Rightarrow> string" where
  "strftime_est t = ''EST '' @ fmt2 (hour t) @ '':'' @ fmt2 (minute t)"

subsection \<open>strptime\<close>

text \<open>
  \<^verbatim>\<open>datetime.strptime(s, '%Y-%m-%dT%H:%M:%SZ')\<close> compiles the format into the regular
  expression
  \<^verbatim>\<open>(?P<Y>\d\d\d\d)-(?P<m>1[0-2]|0[1-9]|[1-9])-(?P<d>3[0-1]|[1-2]\d|0[1-9]|[1-9]| [1-9])T\<close>
  \<^verbatim>\<open>(?P<H>2[0-3]|[0-1]\d|\d):(?P<M>[0-5]\d|\d):(?P<S>6[0-1]|[0-5]\d|\d)Z\<close>,
  matched at the start of the string with case ignored. A matcher returns every way to
  match a prefix, in the order a backtracking matcher tries them, each with the number
  read and the text left over; the match found is the first of the list.
\<close>

type_synonym 'a matcher = "string \<Rightarrow> ('a \<times> string) list"

definition is_digit :: "char \<Rightarrow> bool" where
  "is_digit c = (48 \<le> (of_char c :: nat) \<and> (of_char c :: nat) \<le> 57)"

definition digit_val :: "char \<Rightarrow> int" where
  "digit_val c = int (of_char c) - 48"

text \<open>The character class \<^verbatim>\<open>[lo-hi]\<close> of digits; \<^verbatim>\<open>\d\<close> is \<open>re_range 0 9\<close>.\<close>

fun re_range :: "int \<Rightarrow> int \<Rightarrow> int matcher" where
  "re_range lo hi [] = []"
| "re_range lo hi (c # cs) =
     (if is_digit c \<and> lo \<le> digit_val c \<and> digit_val c \<le> hi then [(digit_val c, cs)] else [])"

text \<open>A literal character of the format; a letter matches in either case.\<close>

fun re_lit :: "char \<Rightarrow> unit matcher" where
  "re_lit a [] = []"
| "re_lit a (c # cs) = (if lower_char c = lower_char a then [((), cs)] else [])"

definition re_seq :: "'a matcher \<Rightarrow> ('a \<Rightarrow> 'b matcher) \<Rightarrow> 'b matcher" where
  "re_seq p f s = concat (map (\<lambda>(a, r). f a r) (p s))"

definition re_ret :: "'a \<Rightarrow> 'a matcher" where
  "re_ret a s = [(a, s)]"

definition re_alt :: "'a matcher list \<Rightarrow> 'a matcher" where
  "re_alt ps s = concat (map (\<lambda>p. p s) ps)"

text \<open>Two digit classes in a row, read as a number.\<close>

definition re_two :: "int matcher \<Rightarrow> int matcher \<Rightarrow> int matcher" where
  "re_two p q = re_seq p (\<lambda>a. re_seq q (\<lambda>b. re_ret (10 * a + b)))"

definition re_Y :: "int matcher" where
  "re_Y = re_seq (re_range 0 9) (\<lambda>a. re_seq (re_range 0 9) (\<lambda>b.
          re_seq (re_range 0 9) (\<lambda>c. re_seq (re_range 0 9) (\<lambda>d.
          re_ret (1000 * a + 100 * b + 10 * c + d)))))"

definition re_m :: "int matcher" where
  "re_m = re_alt [re_two (re_range 1 1) (re_range 0 2),
                  re_two (re_range 0 0) (re_range 1 9),
                  re_range 1 9]"

definition re_d :: "int matcher" where
  "re_d = re_alt [re_two (re_range 3 3) (re_range 0 1),
                  re_two (re_range 1 2) (re_range 0 9),
                  re_two (re_range 0 0) (re_range 1 9),
                  re_range 1 9,
                  re_seq (re_lit CHR '' '') (\<lambda>_. re_range 1 9)]"

definition re_H :: "int matcher" where
  "re_H = re_alt [re_two (re_range 2 2) (re_range 0 3),
                  re_two (re_range 0 1) (re_range 0 9),
                  re_range 0 9]"

definition re_M :: "int matcher" where
  "re_M = re_alt [re_two (re_range 0 5) (re_range 0 9),
                  re_range 0 9]"

definition re_S :: "int matcher" where
  "re_S = re_alt [re_two (re_range 6 6) (re_range 0 1),
                  re_two (re_range 0 5) (re_range 0 9),
                  re_range 0 9]"

definition format_regex :: "(int \<times> int \<times> int \<times> int \<times> int \<times> int) matcher" where
  "format_regex =
     re_seq re_Y (\<lambda>y. re_seq (re_lit CHR ''-'') (\<lambda>_.
     re_seq re_m (\<lambda>m. re_seq (re_lit CHR ''-'') (\<lambda>_.
     re_seq re_d (\<lambda>d. re_seq (re_lit CHR ''T'') (\<lambda>_.
     re_seq re_H (\<lambda>h. re_seq (re_lit CHR '':'') (\<lambda>_.
     re_seq re_M (\<lambda>mi. re_seq (re_lit CHR '':'') (\<lambda>_.
     re_seq re_S (\<lambda>s. re_seq (re_lit CHR ''Z'') (\<lambda>_.
     re_ret (y, m, d, h, mi, s)))))))))))))"

text \<open>
  No match, text left after the match, a day the month does not have, the year 0 and
  a second above 59 all raise \<^verbatim>\<open>ValueError\<close>.
\<close>

definition strptime :: "string \<Rightarrow> py_exc + datetime" where
  "strptime s =
     (case format_regex s of
        [] \<Rightarrow> Inl ValueError
      | ((y, m, d, h, mi, sec), rest) # _ \<Rightarrow>
          if rest \<noteq> [] then Inl ValueError
          else if \<not> valid_date y m d then Inl ValueError
          else if 59 < sec then Inl ValueError
          else Inr \<lparr>year = y, month = m, day = d, hour = h, minute = mi, second = sec,
                    microsecond = 0\<rparr>)"

subsection \<open>The time zone\<close>

text \<open>
  \<^verbatim>\<open>pytz.timezone('US/Eastern')\<close> is a table of the tz database, not of this
  repository: the instants (UTC, in seconds, day 1 starting at 86400) at which the offset
  changes, each with the UTC offset in seconds that holds from then on. The functions
  below take the table as the parameter \<open>est\<close>. \<^verbatim>\<open>pytz\<close> finds the entry in force
  with \<^verbatim>\<open>bisect_right\<close> over the sorted instants and adds its offset.
\<close>

type_synonym tzinfo = "(int \<times> int) list"

definition utc_key :: "datetime \<Rightarrow> int" where
  "utc_key t = toordinal t * 86400 + seconds_of_day t"

definition bisect_right :: "int list \<Rightarrow> int \<Rightarrow> int" where
  "bisect_right ks x = int (length (takeWhile (\<lambda>k. k \<le> x) ks))"

definition utcoffset :: "tzinfo \<Rightarrow> datetime \<Rightarrow> int" where
  "utcoffset est t =
     (let idx = max 0 (bisect_right (map fst est) (utc_key t) - 1) in snd (est ! nat idx))"

definition fromutc :: "tzinfo \<Rightarrow> datetime \<Rightarrow> py_exc + datetime" where
  "fromutc est t =
     (if est = [] then Inl IndexError else datetime_add t 0 (utcoffset est t))"

text \<open>
  The table of US/Eastern (America/New\_York) as \<^verbatim>\<open>pytz\<close> loads it: local mean time
  (4 h 56 min behind UTC) before the first instant of the table, 1901-12-13 20:45:52,
  then 5 h behind UTC, and 4 h behind while daylight saving or war time is in force
  under the rules of each year, up to 2037. A Sunday is a day whose ordinal is a
  multiple of 7.
\<close>

definition sunday_from :: "int \<Rightarrow> int \<Rightarrow> int \<Rightarrow> int" where
  "sunday_from y m d = (let n = ymd2ord y m d in n + (- n) mod 7)"

definition last_sunday :: "int \<Rightarrow> int \<Rightarrow> int" where
  "last_sunday y m = (let n = ymd2ord y m (days_in_month y m) in n - n mod 7)"

definition at_hour :: "int \<Rightarrow> int \<Rightarrow> int" where
  "at_hour n h = n * 86400 + h * 3600"

definition us_eastern_year :: "int \<Rightarrow> (int \<times> int) list" where
  "us_eastern_year y =
     (if 1918 \<le> y \<and> y \<le> 1920 then
        [(at_hour (last_sunday y 3) 7, - 14400), (at_hour (last_sunday y 10) 6, - 18000)]
      else if (1921 \<le> y \<and> y \<le> 1941) \<or> (1946 \<le> y \<and> y \<le> 1954) then
        [(at_hour (last_sunday y 4) 7, - 14400), (at_hour (last_sunday y 9) 6, - 18000)]
      else if y = 1942 then
        [(at_hour (ymd2ord 1942 2 9) 7, - 14400)]
      else if y = 1945 then
        [(at_hour (ymd2ord 1945 8 14) 23, - 14400), (at_hour (ymd2ord 1945 9 30) 6, - 18000)]
      else if (1955 \<le> y \<and> y \<le> 1973) \<or> (1976 \<le> y \<and> y \<le> 1986) then
        [(at_hour (last_sunday y 4) 7, - 14400), (at_hour (last_sunday y 10) 6, - 18000)]
      else if y = 1974 then
        [(at_hour (ymd2ord 1974 1 6) 7, - 14400), (at_hour (last_sunday y 10) 6, - 18000)]
      else if y = 1975 then
        [(at_hour (last_sunday y 2) 7, - 14400), (at_hour (last_sunday y 10) 6, - 18000)]
      else if 1987 \<le> y \<and> y \<le> 2006 then
        [(at_hour (sunday_from y 4 1) 7, - 14400), (at_hour (last_sunday y 10) 6, - 18000)]
      else if 2007 \<le> y \<and> y \<le> 2037 then
        [(at_hour (sunday_from y 3 8) 7, - 14400), (at_hour (sunday_from y 11 1) 6, - 18000)]
      else [])"

definition US_Eastern :: tzinfo where
  "US_Eastern =
     (86400, - 17760)
     # (ymd2ord 1901 12 13 * 86400 + 20 * 3600 + 45 * 60 + 52, - 18000)
     # concat (map us_eastern_year [1918..2037])"

section \<open>The job\<close>

subsection \<open>convert\_utc\_to\_est and get\_utc\_start\_and\_end\<close>

definition convert_utc_to_est :: "tzinfo \<Rightarrow> string \<Rightarrow> py_exc + string" where
  "convert_utc_to_est est utc_time_str =
     bnd (strptime utc_time_str) (\<lambda>utc_time.
     bnd (fromutc est utc_time) (\<lambda>est_time.
     Inr (strftime_est est_time)))"

text \<open>\<open>now\<close> is what \<^verbatim>\<open>datetime.now(timezone.utc)\<close> returns.\<close>

definition get_utc_start_and_end :: "datetime \<Rightarrow> py_exc + string \<times> string" where
  "get_utc_start_and_end now =
     (let now_utc = now\<lparr>hour := 0, minute := 0, second := 0, microsecond := 0\<rparr>
      in bnd (datetime_add now_utc 1 7200) (\<lambda>end_of_today_utc.
         Inr (strftime_iso now_utc, strftime_iso end_of_today_utc)))"

subsection \<open>fetch\_events\<close>

text \<open>
  The odds API is the parameter \<open>api\<close>: what \<^verbatim>\<open>requests.get\<close> does for the two
  bounds of the window, either raising or giving a response with its status code and the
  outcome of \<^verbatim>\<open>response.json()\<close>.
\<close>

record response =
  status_code :: int
  json_body :: "py_exc + json"

definition fetch_events :: "datetime \<Rightarrow> (string \<Rightarrow> string \<Rightarrow> py_exc + response) \<Rightarrow> py_exc + json" where
  "fetch_events now api =
     bnd (get_utc_start_and_end now) (\<lambda>(today_str, tomorrow_str).
     bnd (api today_str tomorrow_str) (\<lambda>resp.
     if status_code resp \<noteq> 200 then Inl PlainException else json_body resp))"

subsection \<open>process\_game\_data\<close>

text \<open>
  One round of the inner loop (lines 74 and 75): the event's home team, lowered, against
  the record's, and the event's id stored under \<^verbatim>\<open>'id'\<close> on a match. Storing replaces
  the value of a key the dict has and appends a new key otherwise.
\<close>

definition event_step :: "json \<Rightarrow> dict \<Rightarrow> py_exc + dict" where
  "event_step event game_info =
     bnd (py_getitem event ''home_team'') (\<lambda>eh.
     bnd (py_lower eh) (\<lambda>el.
     bnd (py_getitem (JObj game_info) ''home_team'') (\<lambda>gh.
     bnd (py_lower gh) (\<lambda>gl.
     if el = gl
     then bnd (py_getitem event ''id'') (\<lambda>i. Inr (AList.update ''id'' i game_info))
     else Inr game_info))))"

fun events_loop :: "json list \<Rightarrow> dict \<Rightarrow> py_exc + dict" where
  "events_loop [] game_info = Inr game_info"
| "events_loop (event # rest) game_info =
     (case event_step event game_info of
        Inl e \<Rightarrow> Inl e
      | Inr game_info' \<Rightarrow> events_loop rest game_info')"

text \<open>\<^verbatim>\<open>game["teams"][side]["team"]["name"]\<close>.\<close>

definition team_name :: "json \<Rightarrow> string \<Rightarrow> py_exc + json" where
  "team_name game side =
     bnd (py_getitem game ''teams'') (\<lambda>teams.
     bnd (py_getitem teams side) (\<lambda>s.
     bnd (py_getitem s ''team'') (\<lambda>team.
     py_getitem team ''name'')))"

text \<open>\<^verbatim>\<open>strptime\<close> takes a string only.\<close>

fun convert_arg :: "tzinfo \<Rightarrow> json \<Rightarrow> py_exc + string" where
  "convert_arg est (JStr s) = convert_utc_to_est est s"
| "convert_arg est _ = Inl TypeError"

text \<open>The body of the loop over the games, lines 64 to 75.\<close>

definition game_body :: "tzinfo \<Rightarrow> json \<Rightarrow> json \<Rightarrow> py_exc + dict" where
  "game_body est events game =
     bnd (py_getitem game ''gameDate'') (\<lambda>gd.
     bnd (convert_arg est gd) (\<lambda>game_time_est.
     bnd (py_getitem game ''gameDate'') (\<lambda>date.
     bnd (team_name game ''away'') (\<lambda>away.
     bnd (team_name game ''home'') (\<lambda>home.
     bnd (py_getitem game ''venue'') (\<lambda>v.
     bnd (py_getitem v ''name'') (\<lambda>venue.
     bnd (py_iter events) (\<lambda>evs.
     events_loop evs
       [(''date'', date), (''time'', JStr game_time_est), (''away_team'', away),
        (''home_team'', home), (''venue'', venue)]))))))))"

fun games_loop :: "tzinfo \<Rightarrow> json \<Rightarrow> json list \<Rightarrow> dict list \<Rightarrow> py_exc + dict list" where
  "games_loop est events [] game_info_list = Inr game_info_list"
| "games_loop est events (game # rest) game_info_list =
     (case game_body est events game of
        Inl e \<Rightarrow> Inl e
      | Inr game_info \<Rightarrow> games_loop est events rest (game_info_list @ [game_info]))"

text \<open>
  \<open>events_call\<close> is the outcome of the call \<^verbatim>\<open>MLBAPI.fetch_events()\<close> of line 60,
  made after line 56 has read the games.
\<close>

definition process_game_data :: "tzinfo \<Rightarrow> json \<Rightarrow> py_exc + json \<Rightarrow> py_exc + dict list" where
  "process_game_data est data events_call =
     bnd (py_get data ''dates'') (\<lambda>dates.
     bnd (py_first dates) (\<lambda>first_date.
     bnd (py_get first_date ''games'') (\<lambda>games.
     bnd events_call (\<lambda>events.
     bnd (py_iter games) (\<lambda>gs.
     games_loop est events gs [])))))"

subsection \<open>main\<close>

text \<open>
  What the run meets outside the program: the zone table, the clock, the outcome of
  \<^verbatim>\<open>delete_from_s3\<close>, of \<^verbatim>\<open>get_schedule\<close>, of the odds API, of writing the file in
  \<^verbatim>\<open>save_schedule\<close> and of \<^verbatim>\<open>upload_to_s3\<close>.
\<close>

record world =
  est_zone :: tzinfo
  clock :: datetime
  delete_from_s3 :: "py_exc + unit"
  get_schedule :: "py_exc + json"
  odds_api :: "string \<Rightarrow> string \<Rightarrow> py_exc + response"
  save_schedule :: "dict list \<Rightarrow> py_exc + unit"
  upload_to_s3 :: "py_exc + unit"

text \<open>The two lines the job prints; \<open>Error_line e\<close> is \<^verbatim>\<open>An error occurred: \<close> and \<^verbatim>\<open>str(e)\<close>.\<close>

datatype log_line = Success_line | Error_line py_exc

definition main_try :: "world \<Rightarrow> py_exc + log_line list" where
  "main_try w =
     bnd (delete_from_s3 w) (\<lambda>_.
     bnd (get_schedule w) (\<lambda>schedule_data.
     bnd (process_game_data (est_zone w) schedule_data
            (fetch_events (clock w) (odds_api w))) (\<lambda>games.
     bnd (save_schedule w games) (\<lambda>_.
     bnd (upload_to_s3 w) (\<lambda>_.
     Inr [Success_line])))))"

text \<open>
  \<^verbatim>\<open>except Exception as e\<close> takes an instance of \<^verbatim>\<open>Exception\<close> and prints the line;
  \<open>Inl\<close> is an exception that leaves \<^verbatim>\<open>main\<close>, \<open>Inr\<close> a return with the lines printed.
\<close>

definition main :: "world \<Rightarrow> py_exc + log_line list" where
  "main w =
     (case main_try w of
        Inr printed \<Rightarrow> Inr printed
      | Inl e \<Rightarrow> if isinstance_Exception e then Inr [Error_line e] else Inl e)"

section \<open>Notions of the specification\<close>

text \<open>
  The games of the first date entry, in the order the loop of line 63 visits them:
  what line 56 reads, iterated.
\<close>

definition games_of :: "json \<Rightarrow> py_exc + json list" where
  "games_of data =
     bnd (py_get data ''dates'') (\<lambda>dates.
     bnd (py_first dates) (\<lambda>first_date.
     bnd (py_get first_date ''games'') py_iter))"

text \<open>An event matches a home-team name when its \<^verbatim>\<open>home_team\<close> equals it with case ignored.\<close>

definition event_matches :: "string \<Rightarrow> json \<Rightarrow> bool" where
  "event_matches h event =
     (bnd (py_getitem event ''home_team'') py_lower = Inr (map lower_char h))"

text \<open>
  A schedule game carries the fields the job reads: a \<^verbatim>\<open>gameDate\<close> that the
  conversion accepts, the two team names (the home team's a string) and the venue name.
  An odds event carries a string \<^verbatim>\<open>home_team\<close> and an \<^verbatim>\<open>id\<close>.
\<close>

definition valid_game :: "tzinfo \<Rightarrow> json \<Rightarrow> bool" where
  "valid_game est game =
     (returns (bnd (py_getitem game ''gameDate'') (convert_arg est))
      \<and> returns (team_name game ''away'')
      \<and> (case team_name game ''home'' of Inr (JStr h) \<Rightarrow> True | _ \<Rightarrow> False)
      \<and> returns (bnd (py_getitem game ''venue'') (\<lambda>v. py_getitem v ''name'')))"

definition valid_event :: "json \<Rightarrow> bool" where
  "valid_event event =
     ((case py_getitem event ''home_team'' of Inr (JStr h) \<Rightarrow> True | _ \<Rightarrow> False)
      \<and> returns (py_getitem event ''id''))"

text \<open>The field \<^verbatim>\<open>id\<close> of a record: \<open>None\<close> when the record has no such key.\<close>

definition record_id :: "dict \<Rightarrow> json option" where
  "record_id r = map_of r ''id''"

text \<open>
  The strict format \<^verbatim>\<open>YYYY-MM-DDTHH:MM:SSZ\<close>: twenty characters, digits where the
  letters stand and the punctuation as written. \<open>iso_text\<close> writes six numbers so.
\<close>

definition strict_format :: "string \<Rightarrow> bool" where
  "strict_format s =
     (length s = 20
      \<and> (\<forall>i \<in> {0, 1, 2, 3, 5, 6, 8, 9, 11, 12, 14, 15, 17, 18}. is_digit (s ! i))
      \<and> s ! 4 = CHR ''-'' \<and> s ! 7 = CHR ''-'' \<and> s ! 10 = CHR ''T''
      \<and> s ! 13 = CHR '':'' \<and> s ! 16 = CHR '':'' \<and> s ! 19 = CHR ''Z'')"

definition fmt4 :: "int \<Rightarrow> string" where
  "fmt4 n = [digit_char (n div 1000), digit_char (n div 100 mod 10),
             digit_char (n div 10 mod 10), digit_char (n mod 10)]"

definition iso_text :: "int \<Rightarrow> int \<Rightarrow> int \<Rightarrow> int \<Rightarrow> int \<Rightarrow> int \<Rightarrow> string" where
  "iso_text y m d h mi s =
     fmt4 y @ ''-'' @ fmt2 m @ ''-'' @ fmt2 d @ ''T'' @ fmt2 h @ '':'' @ fmt2 mi @ '':''
       @ fmt2 s @ ''Z''"


section \<open>Fixtures\<close>

text \<open>
  A schedule response and lists of odds events of the shape the two APIs send, for
  running the job on concrete input.
\<close>

definition fixture_game :: "string \<Rightarrow> string \<Rightarrow> string \<Rightarrow> string \<Rightarrow> json" where
  "fixture_game date away home venue =
     JObj [(''gamePk'', JInt 745123),
           (''gameDate'', JStr date),
           (''teams'', JObj [(''away'', JObj [(''team'', JObj [(''id'', JInt 111), (''name'', JStr away)])]),
                             (''home'', JObj [(''team'', JObj [(''id'', JInt 147), (''name'', JStr home)])])]),
           (''venue'', JObj [(''id'', JInt 3313), (''name'', JStr venue)])]"

definition fixture_event :: "string \<Rightarrow> string \<Rightarrow> string \<Rightarrow> string \<Rightarrow> json" where
  "fixture_event ident commence home away =
     JObj [(''id'', JStr ident), (''sport_key'', JStr ''baseball_mlb''),
           (''commence_time'', JStr commence), (''home_team'', JStr home),
           (''away_team'', JStr away)]"

definition fixture_games :: "json list" where
  "fixture_games =
     [fixture_game ''2024-07-04T23:10:00Z'' ''Boston Red Sox'' ''New York Yankees'' ''Yankee Stadium'',
      fixture_game ''2024-07-05T00:05:00Z'' ''Chicago Cubs'' ''Atlanta Braves'' ''Truist Park'',
      fixture_game ''2024-07-05T02:40:00Z'' ''Boston Red Sox'' ''New York Yankees'' ''Yankee Stadium'']"

definition fixture_schedule :: json where
  "fixture_schedule =
     JObj [(''totalGames'', JInt 3),
           (''dates'', JArr [JObj [(''date'', JStr ''2024-07-04''), (''games'', JArr fixture_games)]])]"

definition fixture_events :: "json list" where
  "fixture_events =
     [fixture_event ''e1'' ''2024-07-04T23:10:00Z'' ''new york yankees'' ''Boston Red Sox'',
      fixture_event ''e2'' ''2024-07-05T00:10:00Z'' ''Houston Astros'' ''Seattle Mariners'',
      fixture_event ''e3'' ''2024-07-05T02:40:00Z'' ''NEW YORK YANKEES'' ''Boston Red Sox'']"

definition fixture_events_other :: "json list" where
  "fixture_events_other =
     [fixture_event ''e4'' ''2024-07-05T00:10:00Z'' ''Houston Astros'' ''Seattle Mariners'',
      fixture_event ''e5'' ''2024-07-05T01:10:00Z'' ''Texas Rangers'' ''San Diego Padres'']"

definition fixture_events_variant :: "json list" where
  "fixture_events_variant =
     [fixture_event ''e1'' ''2024-07-06T17:00:00Z'' ''new york yankees'' ''Toronto Blue Jays'',
      fixture_event ''e2'' ''2024-07-06T18:00:00Z'' ''Houston Astros'' ''Miami Marlins'',
      fixture_event ''e3'' ''2024-07-06T19:00:00Z'' ''NEW YORK YANKEES'' ''Detroit Tigers'']"

text \<open>The records the job builds from \<open>fixture_schedule\<close> and \<open>fixture_events\<close>.\<close>

definition fixture_records :: "dict list" where
  "fixture_records =
     [[(''date'', JStr ''2024-07-04T23:10:00Z''), (''time'', JStr ''EST 19:10''),
       (''away_team'', JStr ''Boston Red Sox''), (''home_team'', JStr ''New York Yankees''),
       (''venue'', JStr ''Yankee Stadium''), (''id'', JStr ''e3'')],
      [(''date'', JStr ''2024-07-05T00:05:00Z''), (''time'', JStr ''EST 20:05''),
       (''away_team'', JStr ''Chicago Cubs''), (''home_team'', JStr ''Atlanta Braves''),
       (''venue'', JStr ''Truist Park'')],
      [(''date'', JStr ''2024-07-05T02:40:00Z''), (''time'', JStr ''EST 22:40''),
       (''away_team'', JStr ''Boston Red Sox''), (''home_team'', JStr ''New York Yankees''),
       (''venue'', JStr ''Yankee Stadium''), (''id'', JStr ''e3'')]]"

text \<open>A clock reading and a run in which every collaborator succeeds.\<close>

definition fixture_clock :: datetime where
  "fixture_clock = \<lparr>year = 2024, month = 7, day = 4, hour = 15, minute = 30, second = 45,
                     microsecond = 123456\<rparr>"

definition fixture_world :: world where
  "fixture_world =
     \<lparr>est_zone = US_Eastern, clock = fixture_clock, delete_from_s3 = Inr (),
      get_schedule = Inr fixture_schedule,
      odds_api = (\<lambda>a b. Inr \<lparr>status_code = 200, json_body = Inr (JArr fixture_events)\<rparr>),
      save_schedule = (\<lambda>games. Inr ()), upload_to_s3 = Inr ()\<rparr>"

section \<open>Line 56: an empty list of dates\<close>

lemma bnd_Inl [simp]: "bnd (Inl e) f = Inl e"
  by (simp add: bnd_def)

lemma bnd_Inr [simp]: "bnd (Inr v) f = f v"
  by (simp add: bnd_def)

lemma bnd_eq_Inr: "bnd r f = Inr y \<longleftrightarrow> (\<exists>v. r = Inr v \<and> f v = Inr y)"
  by (cases r) simp_all

lemma bnd_eq_Inl: "bnd r f = Inl e \<longleftrightarrow> r = Inl e \<or> (\<exists>v. r = Inr v \<and> f v = Inl e)"
  by (cases r) simp_all

text \<open>
  C2. The claim: for a schedule response whose \<^verbatim>\<open>dates\<close> list is empty, record building
  raises a classified error and not an out-of-range index fault. The code indexes the
  empty list: \<^verbatim>\<open>data.get("dates", [])[0]\<close> raises \<^verbatim>\<open>IndexError\<close>, whatever the
  zone table and the outcome of the events call, and it does so as well when the key
  \<^verbatim>\<open>dates\<close> is missing and the default \<^verbatim>\<open>[]\<close> is indexed.
\<close>

theorem process_game_data_empty_dates:
  "process_game_data est (JObj [(''dates'', JArr [])]) events_call = Inl IndexError
   \<and> process_game_data est (JObj []) events_call = Inl IndexError"
  by (simp add: process_game_data_def)

section \<open>The two loops of process\_game\_data\<close>

lemma games_loop_Inr:
  "games_loop est events gs acc = Inr recs \<longleftrightarrow>
     (\<exists>new. recs = acc @ new \<and> list_all2 (\<lambda>g r. game_body est events g = Inr r) gs new)"
proof (induction gs arbitrary: acc)
  case Nil
  then show ?case by auto
next
  case (Cons g gs)
  show ?case
  proof (cases "game_body est events g")
    case (Inl e)
    then show ?thesis by (auto simp: list_all2_Cons1)
  next
    case (Inr info)
    then show ?thesis by (auto simp: Cons.IH list_all2_Cons1)
  qed
qed

lemma process_game_data_Inr:
  "process_game_data est data events_call = Inr recs \<longleftrightarrow>
     (\<exists>events gs. events_call = Inr events \<and> games_of data = Inr gs
        \<and> list_all2 (\<lambda>g r. game_body est events g = Inr r) gs recs)"
  by (auto simp: process_game_data_def games_of_def bnd_eq_Inr games_loop_Inr)

lemma game_body_Inr:
  "game_body est events g = Inr r \<longleftrightarrow>
     (\<exists>gd t away home v venue evs.
        py_getitem g ''gameDate'' = Inr gd \<and> convert_arg est gd = Inr t
        \<and> team_name g ''away'' = Inr away \<and> team_name g ''home'' = Inr home
        \<and> py_getitem g ''venue'' = Inr v \<and> py_getitem v ''name'' = Inr venue
        \<and> py_iter events = Inr evs
        \<and> events_loop evs [(''date'', gd), (''time'', JStr t), (''away_team'', away),
             (''home_team'', home), (''venue'', venue)] = Inr r)"
  by (auto simp: game_body_def bnd_eq_Inr)

lemma event_step_Inr:
  assumes "map_of info ''home_team'' = Some (JStr h)"
  shows "event_step ev info = Inr info' \<longleftrightarrow>
           (if event_matches h ev
            then \<exists>i. py_getitem ev ''id'' = Inr i \<and> info' = AList.update ''id'' i info
            else (\<exists>eh. py_getitem ev ''home_team'' = Inr (JStr eh)) \<and> info' = info)"
proof (cases "py_getitem ev ''home_team''")
  case (Inl e)
  then show ?thesis by (simp add: event_step_def event_matches_def)
next
  case (Inr eh)
  show ?thesis
  proof (cases eh)
    case (JStr s)
    with Inr assms show ?thesis
      by (auto simp: event_step_def event_matches_def bnd_eq_Inr)
  qed (use Inr in \<open>simp_all add: event_step_def event_matches_def\<close>)
qed

lemma update_id_home [simp]:
  "map_of (AList.update ''id'' i info) ''home_team'' = map_of info ''home_team''"
  by (simp add: update_conv')

lemma events_loop_id:
  assumes "events_loop evs info = Inr r" and "map_of info ''home_team'' = Some (JStr h)"
  shows "record_id r =
           (if filter (event_matches h) evs = [] then record_id info
            else (case py_getitem (last (filter (event_matches h) evs)) ''id'' of
                    Inr v \<Rightarrow> Some v | Inl e \<Rightarrow> None))"
  using assms
proof (induction evs arbitrary: info)
  case Nil
  then show ?case by simp
next
  case (Cons ev evs)
  from Cons.prems obtain info' where st: "event_step ev info = Inr info'"
    and lp: "events_loop evs info' = Inr r"
    by (auto split: sum.splits)
  show ?case
  proof (cases "event_matches h ev")
    case True
    with st Cons.prems(2) obtain i where i: "py_getitem ev ''id'' = Inr i"
      and info': "info' = AList.update ''id'' i info"
      by (auto simp: event_step_Inr)
    have "map_of info' ''home_team'' = Some (JStr h)"
      using Cons.prems(2) info' by simp
    from Cons.IH[OF lp this] True i info' show ?thesis
      by (simp add: record_id_def update_conv')
  next
    case False
    with st Cons.prems(2) have "info' = info"
      by (auto simp: event_step_Inr)
    with lp have "events_loop evs info = Inr r"
      by simp
    from Cons.IH[OF this Cons.prems(2)] False show ?thesis
      by simp
  qed
qed

lemma events_loop_other:
  assumes "events_loop evs info = Inr r" and "k \<noteq> ''id''"
  shows "map_of r k = map_of info k"
  using assms
proof (induction evs arbitrary: info)
  case Nil
  then show ?case by simp
next
  case (Cons ev evs)
  from Cons.prems obtain info' where st: "event_step ev info = Inr info'"
    and lp: "events_loop evs info' = Inr r"
    by (auto split: sum.splits)
  from st have "map_of info' k = map_of info k"
    using Cons.prems(2)
    by (auto simp: event_step_def bnd_eq_Inr update_conv' split: if_splits)
  with Cons.IH[OF lp Cons.prems(2)] show ?case by simp
qed

lemma events_loop_returns:
  assumes "list_all valid_event evs" and "map_of info ''home_team'' = Some (JStr h)"
  shows "\<exists>r. events_loop evs info = Inr r"
  using assms
proof (induction evs arbitrary: info)
  case Nil
  then show ?case by simp
next
  case (Cons ev evs)
  from Cons.prems(1) obtain eh i where eh: "py_getitem ev ''home_team'' = Inr (JStr eh)"
    and i: "py_getitem ev ''id'' = Inr i"
    by (auto simp: valid_event_def returns_def split: sum.splits json.splits)
  then obtain info' where st: "event_step ev info = Inr info'"
    and hm: "map_of info' ''home_team'' = Some (JStr h)"
    using Cons.prems(2) by (cases "event_matches h ev") (auto simp: event_step_Inr)
  from Cons.prems(1) have "list_all valid_event evs" by simp
  from Cons.IH[OF this hm] st show ?case by simp
qed

lemma game_body_returns:
  assumes "valid_game est g" and "list_all valid_event evs"
  shows "\<exists>r. game_body est (JArr evs) g = Inr r"
proof -
  from assms(1) obtain gd t away h v venue where
    "py_getitem g ''gameDate'' = Inr gd" "convert_arg est gd = Inr t"
    "team_name g ''away'' = Inr away" "team_name g ''home'' = Inr (JStr h)"
    "py_getitem g ''venue'' = Inr v" "py_getitem v ''name'' = Inr venue"
    by (auto simp: valid_game_def returns_def bnd_eq_Inr split: sum.splits json.splits)
  moreover have "\<exists>r. events_loop evs [(''date'', gd), (''time'', JStr t), (''away_team'', away),
             (''home_team'', JStr h), (''venue'', venue)] = Inr r"
    by (rule events_loop_returns[OF assms(2)]) simp
  ultimately show ?thesis
    by (auto simp: game_body_Inr)
qed

lemma list_all2_returns:
  assumes "list_all (\<lambda>g. \<exists>r. f g = Inr r) gs"
  shows "\<exists>recs. list_all2 (\<lambda>g r. f g = Inr r) gs recs"
  using assms
proof (induction gs)
  case Nil
  then show ?case by simp
next
  case (Cons g gs)
  then obtain r recs where "f g = Inr r" "list_all2 (\<lambda>g r. f g = Inr r) gs recs"
    by auto
  then have "list_all2 (\<lambda>g r. f g = Inr r) (g # gs) (r # recs)"
    by simp
  then show ?case ..
qed

lemma process_game_data_returns:
  assumes "games_of data = Inr gs" and "list_all (valid_game est) gs"
    and "list_all valid_event evs"
  shows "\<exists>recs. process_game_data est data (Inr (JArr evs)) = Inr recs"
proof -
  have "list_all (\<lambda>g. \<exists>r. game_body est (JArr evs) g = Inr r) gs"
    using assms(2,3) by (auto simp: list_all_iff intro: game_body_returns)
  from list_all2_returns[OF this] assms(1) show ?thesis
    by (auto simp: process_game_data_Inr)
qed
lemma game_body_fields:
  assumes "game_body est events g = Inr r"
  shows "py_getitem (JObj r) ''date'' = py_getitem g ''gameDate''"
    and "py_getitem (JObj r) ''time''
           = bnd (bnd (py_getitem g ''gameDate'') (convert_arg est)) (\<lambda>t. Inr (JStr t))"
    and "py_getitem (JObj r) ''away_team'' = team_name g ''away''"
    and "py_getitem (JObj r) ''home_team'' = team_name g ''home''"
    and "py_getitem (JObj r) ''venue'' = bnd (py_getitem g ''venue'') (\<lambda>v. py_getitem v ''name'')"
proof -
  from assms obtain gd t away home v venue evs where
    f: "py_getitem g ''gameDate'' = Inr gd" "convert_arg est gd = Inr t"
      "team_name g ''away'' = Inr away" "team_name g ''home'' = Inr home"
      "py_getitem g ''venue'' = Inr v" "py_getitem v ''name'' = Inr venue"
    and lp: "events_loop evs [(''date'', gd), (''time'', JStr t), (''away_team'', away),
             (''home_team'', home), (''venue'', venue)] = Inr r"
    by (auto simp: game_body_Inr)
  note other = events_loop_other[OF lp]
  show "py_getitem (JObj r) ''date'' = py_getitem g ''gameDate''"
    using other[of "''date''"] f by simp
  show "py_getitem (JObj r) ''time''
           = bnd (bnd (py_getitem g ''gameDate'') (convert_arg est)) (\<lambda>t. Inr (JStr t))"
    using other[of "''time''"] f by simp
  show "py_getitem (JObj r) ''away_team'' = team_name g ''away''"
    using other[of "''away_team''"] f by simp
  show "py_getitem (JObj r) ''home_team'' = team_name g ''home''"
    using other[of "''home_team''"] f by simp
  show "py_getitem (JObj r) ''venue'' = bnd (py_getitem g ''venue'') (\<lambda>v. py_getitem v ''name'')"
    using other[of "''venue''"] f by simp
qed
lemma last_filter:
  assumes "k < length xs" and "P (xs ! k)"
    and "\<forall>j. k < j \<and> j < length xs \<longrightarrow> \<not> P (xs ! j)"
  shows "filter P xs = filter P (take k xs) @ [xs ! k]"
proof -
  have "filter P (drop (Suc k) xs) = []"
    using assms(3) by (auto simp: filter_empty_conv in_set_conv_nth)
  moreover have "xs = take k xs @ xs ! k # drop (Suc k) xs"
    using assms(1) by (rule id_take_nth_drop)
  ultimately show ?thesis
    using assms(2) by (metis append_Nil2 filter.simps(2) filter_append)
qed

lemma game_body_id:
  assumes "game_body est events g = Inr r" and "team_name g ''home'' = Inr (JStr h)"
  shows "\<exists>evs. py_iter events = Inr evs \<and> record_id r =
           (if filter (event_matches h) evs = [] then None
            else (case py_getitem (last (filter (event_matches h) evs)) ''id'' of
                    Inr v \<Rightarrow> Some v | Inl e \<Rightarrow> None))"
proof -
  from assms obtain gd t away v venue evs where it: "py_iter events = Inr evs"
    and lp: "events_loop evs [(''date'', gd), (''time'', JStr t), (''away_team'', away),
             (''home_team'', JStr h), (''venue'', venue)] = Inr r"
    by (auto simp: game_body_Inr)
  from events_loop_id[OF lp, of h] it show ?thesis
    by (simp add: record_id_def)
qed

lemma valid_game_home:
  assumes "valid_game est g"
  shows "\<exists>h. team_name g ''home'' = Inr (JStr h)"
proof (cases "team_name g ''home''")
  case (Inl e)
  with assms show ?thesis by (simp add: valid_game_def)
next
  case (Inr x)
  with assms show ?thesis by (cases x) (simp_all add: valid_game_def)
qed

lemma events_loop_matching_id:
  assumes "events_loop evs info = Inr r" and "ev \<in> set evs" and "event_matches h ev"
    and "map_of info ''home_team'' = Some (JStr h)"
  shows "\<exists>v. py_getitem ev ''id'' = Inr v"
  using assms
proof (induction evs arbitrary: info)
  case Nil
  then show ?case by simp
next
  case (Cons a evs)
  from Cons.prems obtain info' where st: "event_step a info = Inr info'"
    and lp: "events_loop evs info' = Inr r"
    by (auto split: sum.splits)
  have hm: "map_of info' ''home_team'' = Some (JStr h)"
    using st Cons.prems(4) by (auto simp: event_step_Inr split: if_splits)
  show ?case
  proof (cases "ev = a")
    case True
    with st Cons.prems(3,4) show ?thesis by (auto simp: event_step_Inr)
  next
    case False
    with Cons.prems(2) have "ev \<in> set evs" by simp
    from Cons.IH[OF lp this Cons.prems(3) hm] show ?thesis .
  qed
qed
lemma event_matches_lower:
  "map lower_char a = map lower_char b \<Longrightarrow> event_matches a = event_matches b"
  by (rule ext) (simp add: event_matches_def)
lemma event_step_agree:
  assumes "py_getitem a ''home_team'' = py_getitem b ''home_team''"
    and "py_getitem a ''id'' = py_getitem b ''id''"
  shows "event_step a info = event_step b info"
  unfolding event_step_def assms by (rule refl)

lemma events_loop_agree:
  assumes "list_all2 (\<lambda>a b. py_getitem a ''home_team'' = py_getitem b ''home_team''
              \<and> py_getitem a ''id'' = py_getitem b ''id'') evs1 evs2"
  shows "events_loop evs1 info = events_loop evs2 info"
  using assms
proof (induction evs1 evs2 arbitrary: info rule: list_all2_induct)
  case Nil
  then show ?case by simp
next
  case (Cons a evs1 b evs2)
  then show ?case
    by (simp add: event_step_agree[of a b] split: sum.splits)
qed

lemma games_loop_agree:
  assumes "\<And>g. game_body est ev1 g = game_body est ev2 g"
  shows "games_loop est ev1 gs acc = games_loop est ev2 gs acc"
  by (induction gs arbitrary: acc) (simp_all add: assms split: sum.splits)

subsection \<open>The job on the fixtures\<close>

lemma fixture_games_of: "games_of fixture_schedule = Inr fixture_games"
  by code_simp

lemma fixture_run:
  "process_game_data US_Eastern fixture_schedule (Inr (JArr fixture_events)) = Inr fixture_records"
  by code_simp

lemma fixture_games_valid: "list_all (valid_game US_Eastern) fixture_games"
  by code_simp

section \<open>The claims on record building\<close>

text \<open>
  C1. When events match a game's home team with case ignored, the record of the game
  carries the id of the last matching event of the list: for every run of record
  building that returns records, every game \<open>i\<close> with a string home-team name \<open>h\<close> and
  every position \<open>k\<close> of the event list whose event matches \<open>h\<close> while no later event
  does, the event at \<open>k\<close> has an id and the record \<open>i\<close> has that id.
\<close>

theorem last_match_wins:
  assumes "process_game_data est data (Inr (JArr evs)) = Inr recs"
    and "games_of data = Inr gs" and "i < length gs"
    and "team_name (gs ! i) ''home'' = Inr (JStr h)"
    and "k < length evs" and "event_matches h (evs ! k)"
    and "\<forall>j. k < j \<and> j < length evs \<longrightarrow> \<not> event_matches h (evs ! j)"
  shows "\<exists>v. py_getitem (evs ! k) ''id'' = Inr v \<and> record_id (recs ! i) = Some v"
proof -
  from assms(1,2) have all: "list_all2 (\<lambda>g r. game_body (est) (JArr evs) g = Inr r) gs recs"
    by (auto simp: process_game_data_Inr)
  from list_all2_nthD[OF all assms(3)]
  have gb: "game_body est (JArr evs) (gs ! i) = Inr (recs ! i)" .
  from gb assms(4) obtain gd t away v venue where
    lp: "events_loop evs [(''date'', gd), (''time'', JStr t), (''away_team'', away),
             (''home_team'', JStr h), (''venue'', venue)] = Inr (recs ! i)"
    by (auto simp: game_body_Inr)
  have "evs ! k \<in> set evs" using assms(5) by simp
  from events_loop_matching_id[OF lp this assms(6)] obtain v where
    v: "py_getitem (evs ! k) ''id'' = Inr v" by auto
  have f: "filter (event_matches h) evs = filter (event_matches h) (take k evs) @ [evs ! k]"
    using assms(5,6,7) by (rule last_filter)
  from game_body_id[OF gb assms(4)] f v have "record_id (recs ! i) = Some v"
    by simp
  with v show ?thesis by blast
qed

text \<open>
  On the fixtures the first and the third event match the first game, with the ids
  \<open>e1\<close> and \<open>e3\<close>; the record takes \<open>e3\<close>.
\<close>

theorem last_match_wins_witness:
  "event_matches ''New York Yankees'' (fixture_events ! 0)
   \<and> py_getitem (fixture_events ! 0) ''id'' = Inr (JStr ''e1'')
   \<and> event_matches ''New York Yankees'' (fixture_events ! 2)
   \<and> py_getitem (fixture_events ! 2) ''id'' = Inr (JStr ''e3'')
   \<and> record_id (fixture_records ! 0) = Some (JStr ''e3'')"
proof -
  have m0: "event_matches ''New York Yankees'' (fixture_events ! 0)
      \<and> py_getitem (fixture_events ! 0) ''id'' = Inr (JStr ''e1'')"
    by code_simp
  have m: "event_matches ''New York Yankees'' (fixture_events ! 2)"
    by code_simp
  have v: "py_getitem (fixture_events ! 2) ''id'' = Inr (JStr ''e3'')"
    by code_simp
  have h: "team_name (fixture_games ! 0) ''home'' = Inr (JStr ''New York Yankees'')"
    by code_simp
  have i: "0 < length fixture_games"
    by (simp add: fixture_games_def)
  have len: "length fixture_events = 3"
    by (simp add: fixture_events_def)
  have k: "2 < length fixture_events"
    by (simp add: len)
  have lst: "\<forall>j. 2 < j \<and> j < length fixture_events
      \<longrightarrow> \<not> event_matches ''New York Yankees'' (fixture_events ! j)"
    unfolding len by (intro allI impI) arith
  from last_match_wins[OF fixture_run fixture_games_of i h k m lst] v
  have "record_id (fixture_records ! 0) = Some (JStr ''e3'')"
    by simp
  with m0 m v show ?thesis by simp
qed

text \<open>
  C5. For every schedule response with N games and every event list in which no event
  matches the home team of any game, record building returns exactly N records and
  none of them has the key \<^verbatim>\<open>id\<close>: the key is absent, not bound to null. The games
  and events are those of the data model: every field the code reads is there.
\<close>

theorem no_match_no_id:
  assumes "games_of data = Inr gs" and "list_all (valid_game est) gs"
    and "list_all valid_event evs"
    and "\<forall>g \<in> set gs. \<forall>h. team_name g ''home'' = Inr (JStr h)
           \<longrightarrow> (\<forall>ev \<in> set evs. \<not> event_matches h ev)"
  shows "\<exists>recs. process_game_data est data (Inr (JArr evs)) = Inr recs
           \<and> length recs = length gs
           \<and> (\<forall>r \<in> set recs. record_id r = None \<and> ''id'' \<notin> fst ` set r)"
proof -
  from process_game_data_returns[OF assms(1,2,3)] obtain recs where
    p: "process_game_data est data (Inr (JArr evs)) = Inr recs" by auto
  with assms(1) have all: "list_all2 (\<lambda>g r. game_body est (JArr evs) g = Inr r) gs recs"
    by (auto simp: process_game_data_Inr)
  have "record_id r = None" if "r \<in> set recs" for r
  proof -
    from that obtain i where i: "i < length recs" and r: "r = recs ! i"
      by (auto simp: in_set_conv_nth)
    from all i have ig: "i < length gs"
      by (simp add: list_all2_lengthD)
    define g where "g = gs ! i"
    from list_all2_nthD[OF all ig] r have gb: "game_body est (JArr evs) g = Inr r"
      by (simp add: g_def)
    from ig have g: "g \<in> set gs"
      by (simp add: g_def)
    from g assms(2) have "valid_game est g"
      by (simp add: list_all_iff)
    from valid_game_home[OF this] obtain h where h: "team_name g ''home'' = Inr (JStr h)" ..
    with g assms(4) have "filter (event_matches h) evs = []"
      by (auto simp: filter_empty_conv)
    with game_body_id[OF gb h] show ?thesis by simp
  qed
  then have "\<forall>r \<in> set recs. record_id r = None \<and> ''id'' \<notin> fst ` set r"
    by (auto simp: record_id_def map_of_eq_None_iff)
  with p all show ?thesis
    by (auto dest: list_all2_lengthD)
qed

theorem no_match_no_id_witness:
  "\<exists>recs. process_game_data US_Eastern fixture_schedule (Inr (JArr fixture_events_other)) = Inr recs
     \<and> length recs = 3 \<and> (\<forall>r \<in> set recs. record_id r = None \<and> ''id'' \<notin> fst ` set r)"
proof -
  have ev: "list_all valid_event fixture_events_other"
    by code_simp
  have h: "list_all (\<lambda>g. team_name g ''home'' = Inr (JStr ''New York Yankees'')
              \<or> team_name g ''home'' = Inr (JStr ''Atlanta Braves'')) fixture_games"
    by code_simp
  have n: "list_all (\<lambda>ev. \<not> event_matches ''New York Yankees'' ev
              \<and> \<not> event_matches ''Atlanta Braves'' ev) fixture_events_other"
    by code_simp
  have no: "\<forall>g \<in> set fixture_games. \<forall>h. team_name g ''home'' = Inr (JStr h)
           \<longrightarrow> (\<forall>ev \<in> set fixture_events_other. \<not> event_matches h ev)"
    using h n by (auto simp: list_all_iff)
  have "length fixture_games = 3"
    by (simp add: fixture_games_def)
  with no_match_no_id[OF fixture_games_of fixture_games_valid ev no] show ?thesis
    by simp
qed

text \<open>
  C6. Two games of one run whose home-team names are equal with case ignored get the
  same id outcome, whatever the events: the two records have the same value under
  \<^verbatim>\<open>id\<close>, or neither has the key.
\<close>

theorem same_home_same_id:
  assumes "process_game_data est data events_call = Inr recs"
    and "games_of data = Inr gs" and "i < length gs" and "j < length gs"
    and "team_name (gs ! i) ''home'' = Inr (JStr a)"
    and "team_name (gs ! j) ''home'' = Inr (JStr b)"
    and "map lower_char a = map lower_char b"
  shows "record_id (recs ! i) = record_id (recs ! j)"
proof -
  from assms(1,2) obtain events where
    all: "list_all2 (\<lambda>g r. game_body est events g = Inr r) gs recs"
    by (auto simp: process_game_data_Inr)
  from list_all2_nthD[OF all assms(3)]
  have gi: "game_body est events (gs ! i) = Inr (recs ! i)" .
  from list_all2_nthD[OF all assms(4)]
  have gj: "game_body est events (gs ! j) = Inr (recs ! j)" .
  from game_body_id[OF gi assms(5)] game_body_id[OF gj assms(6)]
    event_matches_lower[OF assms(7)]
  show ?thesis by auto
qed

text \<open>The first and the third game of the fixture are a doubleheader at one home team.\<close>

theorem same_home_same_id_witness:
  "team_name (fixture_games ! 0) ''home'' = Inr (JStr ''New York Yankees'')
   \<and> team_name (fixture_games ! 2) ''home'' = Inr (JStr ''New York Yankees'')
   \<and> record_id (fixture_records ! 0) = record_id (fixture_records ! 2)
   \<and> record_id (fixture_records ! 2) = Some (JStr ''e3'')"
proof -
  have a: "team_name (fixture_games ! 0) ''home'' = Inr (JStr ''New York Yankees'')"
    by code_simp
  have b: "team_name (fixture_games ! 2) ''home'' = Inr (JStr ''New York Yankees'')"
    by code_simp
  have i: "0 < length fixture_games" and j: "2 < length fixture_games"
    by (simp_all add: fixture_games_def)
  have r: "record_id (fixture_records ! 2) = Some (JStr ''e3'')"
    by code_simp
  from same_home_same_id[OF fixture_run fixture_games_of i j a b refl] a b r
  show ?thesis by simp
qed

text \<open>
  C7. The records come in the order of the games of the first date entry: whenever
  record building returns, there are as many records as games, and the record at
  position \<open>i\<close> is the one the loop body builds from the game at position \<open>i\<close>, with
  that game's date, converted time, team names and venue.
\<close>

theorem process_game_data_order:
  assumes "process_game_data est data events_call = Inr recs"
  shows "\<exists>gs events. games_of data = Inr gs \<and> events_call = Inr events
           \<and> length recs = length gs
           \<and> (\<forall>i<length gs.
                 game_body est events (gs ! i) = Inr (recs ! i)
                 \<and> py_getitem (JObj (recs ! i)) ''date'' = py_getitem (gs ! i) ''gameDate''
                 \<and> py_getitem (JObj (recs ! i)) ''time''
                     = bnd (bnd (py_getitem (gs ! i) ''gameDate'') (convert_arg est))
                         (\<lambda>t. Inr (JStr t))
                 \<and> py_getitem (JObj (recs ! i)) ''away_team'' = team_name (gs ! i) ''away''
                 \<and> py_getitem (JObj (recs ! i)) ''home_team'' = team_name (gs ! i) ''home''
                 \<and> py_getitem (JObj (recs ! i)) ''venue''
                     = bnd (py_getitem (gs ! i) ''venue'') (\<lambda>v. py_getitem v ''name''))"
proof -
  from assms obtain events gs where ev: "events_call = Inr events"
    and gs: "games_of data = Inr gs"
    and all: "list_all2 (\<lambda>g r. game_body est events g = Inr r) gs recs"
    by (auto simp: process_game_data_Inr)
  from all have len: "length recs = length gs"
    by (simp add: list_all2_lengthD)
  have "game_body est events (gs ! i) = Inr (recs ! i)" if "i < length gs" for i
    using list_all2_nthD[OF all that] .
  with ev gs len show ?thesis
    using game_body_fields[of est events] by auto
qed

theorem process_game_data_order_witness:
  "process_game_data US_Eastern fixture_schedule (Inr (JArr fixture_events)) = Inr fixture_records
   \<and> length fixture_records = length fixture_games
   \<and> py_getitem (JObj (fixture_records ! 0)) ''date'' = py_getitem (fixture_games ! 0) ''gameDate''
   \<and> py_getitem (JObj (fixture_records ! 1)) ''date'' = py_getitem (fixture_games ! 1) ''gameDate''
   \<and> py_getitem (JObj (fixture_records ! 2)) ''date'' = py_getitem (fixture_games ! 2) ''gameDate''
   \<and> py_getitem (JObj (fixture_records ! 1)) ''home_team'' = Inr (JStr ''Atlanta Braves'')
   \<and> team_name (fixture_games ! 1) ''home'' = Inr (JStr ''Atlanta Braves'')"
proof -
  have len: "length fixture_games = 3"
    by (simp add: fixture_games_def)
  have h: "team_name (fixture_games ! 1) ''home'' = Inr (JStr ''Atlanta Braves'')"
    by code_simp
  from process_game_data_order[OF fixture_run] fixture_games_of
  have "length fixture_records = length fixture_games
     \<and> (\<forall>i<length fixture_games.
           py_getitem (JObj (fixture_records ! i)) ''date''
             = py_getitem (fixture_games ! i) ''gameDate''
           \<and> py_getitem (JObj (fixture_records ! i)) ''home_team''
               = team_name (fixture_games ! i) ''home'')"
    by auto
  with len h fixture_run show ?thesis
    by simp
qed

text \<open>
  C9. Record building returns one record for each game of the first date entry: it
  returns for every list of schedule games and every list of odds events, whatever the
  number of events that match a game, and every list it returns, for any outcome of the
  events call, is as long as the list of games.
\<close>

theorem process_game_data_length:
  assumes "games_of data = Inr gs"
  shows "(list_all (valid_game est) gs \<and> list_all valid_event evs \<longrightarrow>
            (\<exists>recs. process_game_data est data (Inr (JArr evs)) = Inr recs
                    \<and> length recs = length gs))
         \<and> (\<forall>events_call recs.
              process_game_data est data events_call = Inr recs \<longrightarrow> length recs = length gs)"
proof -
  have len: "length recs = length gs"
    if "process_game_data est data events_call = Inr recs" for events_call recs
    using that assms by (auto simp: process_game_data_Inr dest: list_all2_lengthD)
  show ?thesis
    using process_game_data_returns[OF assms, of est evs] len by blast
qed

theorem process_game_data_length_witness:
  "games_of fixture_schedule = Inr fixture_games
   \<and> list_all (valid_game US_Eastern) fixture_games \<and> list_all valid_event fixture_events
   \<and> (\<exists>recs. process_game_data US_Eastern fixture_schedule (Inr (JArr fixture_events)) = Inr recs
          \<and> length recs = 3)"
proof -
  have ev: "list_all valid_event fixture_events"
    by code_simp
  have "length fixture_games = 3"
    by (simp add: fixture_games_def)
  with process_game_data_length[OF fixture_games_of, of US_Eastern fixture_events]
    fixture_games_of fixture_games_valid ev
  show ?thesis by simp
qed

text \<open>
  C10. The ids depend on the events' \<^verbatim>\<open>home_team\<close> and \<^verbatim>\<open>id\<close> only: two event
  lists that agree position by position on what \<^verbatim>\<open>event['home_team']\<close> and
  \<^verbatim>\<open>event['id']\<close> give make record building return the same, records and errors alike,
  whatever the other fields of the events hold.
\<close>

theorem id_depends_on_home_team_and_id_only:
  assumes "list_all2 (\<lambda>a b. py_getitem a ''home_team'' = py_getitem b ''home_team''
              \<and> py_getitem a ''id'' = py_getitem b ''id'') evs1 evs2"
  shows "process_game_data est data (Inr (JArr evs1)) = process_game_data est data (Inr (JArr evs2))"
proof -
  have "game_body est (JArr evs1) g = game_body est (JArr evs2) g" for g
    by (simp add: game_body_def events_loop_agree[OF assms])
  then have "games_loop est (JArr evs1) gs [] = games_loop est (JArr evs2) gs []" for gs
    by (rule games_loop_agree)
  then show ?thesis
    by (simp add: process_game_data_def)
qed

text \<open>The two fixtures differ in every commence time and away team.\<close>

theorem id_depends_on_home_team_and_id_only_witness:
  "fixture_events \<noteq> fixture_events_variant
   \<and> process_game_data US_Eastern fixture_schedule (Inr (JArr fixture_events_variant))
       = Inr fixture_records"
proof -
  have d: "fixture_events \<noteq> fixture_events_variant"
    by code_simp
  have a: "list_all2 (\<lambda>a b. py_getitem a ''home_team'' = py_getitem b ''home_team''
              \<and> py_getitem a ''id'' = py_getitem b ''id'') fixture_events fixture_events_variant"
    by code_simp
  from id_depends_on_home_team_and_id_only[OF a, of US_Eastern fixture_schedule] fixture_run d
  show ?thesis by simp
qed

section \<open>The calendar\<close>

lemma digit_range: "0 \<le> k \<Longrightarrow> k \<le> 9 \<Longrightarrow> k \<in> {0, 1, 2, 3, 4, 5, 6, 7, 8, (9::int)}"
  by simp presburger

lemma lower_lits:
  "lower_char CHR ''-'' = CHR ''-''" "lower_char CHR '':'' = CHR '':''"
  "lower_char CHR ''T'' = CHR ''t''" "lower_char CHR ''Z'' = CHR ''z''"
  "lower_char CHR '' '' = CHR '' ''"
  by (simp_all add: lower_char_def char_of_eq_iff)

lemma digit_char_lits:
  "digit_char 0 = CHR ''0''" "digit_char 1 = CHR ''1''" "digit_char 2 = CHR ''2''"
  "digit_char 3 = CHR ''3''" "digit_char 4 = CHR ''4''" "digit_char 5 = CHR ''5''"
  "digit_char 6 = CHR ''6''" "digit_char 7 = CHR ''7''" "digit_char 8 = CHR ''8''"
  "digit_char 9 = CHR ''9''"
  by (simp_all add: digit_char_def)

lemma digit_char_props:
  assumes "0 \<le> k" and "k \<le> 9"
  shows "is_digit (digit_char k)" and "digit_val (digit_char k) = k"
    and "lower_char (digit_char k) = digit_char k"
    and "digit_char k \<noteq> CHR ''-''" and "digit_char k \<noteq> CHR '':''"
    and "digit_char k \<noteq> CHR ''t''" and "digit_char k \<noteq> CHR ''z''"
    and "digit_char k \<noteq> CHR '' ''"
  using digit_range[OF assms]
  by (auto simp: digit_char_lits is_digit_def digit_val_def lower_char_def)

lemma div_pred:
  fixes y k :: int
  assumes "0 < k"
  shows "y div k = (y - 1) div k + (if y mod k = 0 then 1 else 0)"
proof (cases "y mod k = 0")
  case True
  then have "k * (y div k) = y"
    by (simp add: mod_0_imp_dvd)
  then have "y - 1 = k * (y div k - 1) + (k - 1)"
    by (simp add: algebra_simps)
  from int_div_pos_eq[OF this] assms have "(y - 1) div k = y div k - 1"
    by simp
  with True show ?thesis by simp
next
  case False
  have m: "0 \<le> y mod k" "y mod k < k"
    using assms by simp_all
  have "y - 1 = k * (y div k) + (y mod k - 1)"
    by (simp add: algebra_simps)
  from int_div_pos_eq[OF this] assms m False have "(y - 1) div k = y div k"
    by simp
  with False show ?thesis by simp
qed

lemma mod_chain:
  fixes y :: int
  shows "y mod 400 = 0 \<Longrightarrow> y mod 100 = 0" and "y mod 100 = 0 \<Longrightarrow> y mod 4 = 0"
proof -
  have "y mod 400 mod 100 = y mod 100"
    using mod_mod_cancel[of 100 400 y] by simp
  then show "y mod 400 = 0 \<Longrightarrow> y mod 100 = 0"
    by auto
  have "y mod 100 mod 4 = y mod 4"
    using mod_mod_cancel[of 4 100 y] by simp
  then show "y mod 100 = 0 \<Longrightarrow> y mod 4 = 0"
    by auto
qed

lemma dby_step: "days_before_year (y + 1) = days_before_year y + (if is_leap y then 366 else 365)"
proof -
  have a: "y div 4 = (y - 1) div 4 + (if y mod 4 = 0 then 1 else 0)"
    by (rule div_pred) simp
  have b: "y div 100 = (y - 1) div 100 + (if y mod 100 = 0 then 1 else 0)"
    by (rule div_pred) simp
  have c: "y div 400 = (y - 1) div 400 + (if y mod 400 = 0 then 1 else 0)"
    by (rule div_pred) simp
  define A B C where "A = (y - 1) div 4" and "B = (y - 1) div 100" and "C = (y - 1) div 400"
  have 1: "days_before_year (y + 1) = y * 365 + y div 4 - y div 100 + y div 400"
    by (simp add: days_before_year_def)
  have 2: "days_before_year y = y * 365 - 365 + A - B + C"
    by (simp add: days_before_year_def A_def B_def C_def algebra_simps)
  have 3: "y div 4 = A + (if y mod 4 = 0 then 1 else 0)"
    "y div 100 = B + (if y mod 100 = 0 then 1 else 0)"
    "y div 400 = C + (if y mod 400 = 0 then 1 else 0)"
    using a b c by (simp_all only: A_def B_def C_def)
  show ?thesis
    unfolding 1 2 3 is_leap_def
    using mod_chain[of y]
    by (cases "y mod 4 = 0"; cases "y mod 100 = 0"; cases "y mod 400 = 0") simp_all
qed

lemma month_range: "1 \<le> m \<Longrightarrow> m \<le> 12 \<Longrightarrow> m \<in> {1, 2, 3, 4, 5, 6, 7, 8, 9, 10, 11, (12::int)}"
  by simp presburger

lemma dbm_step:
  assumes "1 \<le> m" and "m < 12"
  shows "days_before_month y (m + 1) = days_before_month y m + days_in_month y m"
proof -
  from assms have "m \<in> {1, 2, 3, 4, 5, 6, 7, 8, 9, 10, 11, (12::int)}"
    by (intro month_range) simp_all
  with assms(2) show ?thesis
    by (auto simp: days_before_month_def days_in_month_def)
qed

lemma dbm_december: "days_before_month y 12 + 31 = (if is_leap y then 366 else 365)"
  by (simp add: days_before_month_def)

lemma days_in_month_bounds: "28 \<le> days_in_month y m" "days_in_month y m \<le> 31"
  by (simp_all add: days_in_month_def)

lemma toordinal_date_succ:
  assumes "valid_date (year t) (month t) (day t)"
  shows "toordinal (date_succ t) = toordinal t + 1"
proof -
  from assms have m: "1 \<le> month t" "month t \<le> 12"
    and d: "1 \<le> day t" "day t \<le> days_in_month (year t) (month t)"
    by (simp_all add: valid_date_def)
  show ?thesis
  proof (cases "day t < days_in_month (year t) (month t)")
    case True
    then show ?thesis by (simp add: date_succ_def toordinal_def ymd2ord_def)
  next
    case False
    with d have eq: "day t = days_in_month (year t) (month t)" by simp
    show ?thesis
    proof (cases "month t < 12")
      case True
      with False eq m show ?thesis
        by (simp add: date_succ_def toordinal_def ymd2ord_def dbm_step)
    next
      case False
      with m have m12: "month t = 12" by simp
      then have d31: "day t = 31" using eq by (simp add: days_in_month_def)
      have "days_before_month (year t + 1) 1 = 0"
        by (simp add: days_before_month_def)
      with m12 d31 dbm_december[of "year t"] dby_step[of "year t"] show ?thesis
        by (simp add: date_succ_def toordinal_def ymd2ord_def split: if_splits)
    qed
  qed
qed

lemma valid_date_succ:
  assumes "valid_date (year t) (month t) (day t)"
    and "\<not> (year t = 9999 \<and> month t = 12 \<and> day t = 31)"
  shows "valid_date (year (date_succ t)) (month (date_succ t)) (day (date_succ t))"
proof (cases "day t < days_in_month (year t) (month t)")
  case True
  with assms(1) show ?thesis
    by (simp add: valid_date_def date_succ_def)
next
  case False
  with assms(1) have eq: "day t = days_in_month (year t) (month t)"
    by (simp add: valid_date_def)
  show ?thesis
  proof (cases "month t < 12")
    case True
    with False assms(1) days_in_month_bounds(1)[of "year t" "month t + 1"] show ?thesis
      by (simp add: valid_date_def date_succ_def)
  next
    case m: False
    with assms(1) have m12: "month t = 12" by (simp add: valid_date_def)
    with eq have "day t = 31" by (simp add: days_in_month_def)
    with m12 assms have "year t < 9999" by (auto simp: valid_date_def)
    with False m assms(1) days_in_month_bounds(1)[of "year t + 1" 1] show ?thesis
      by (simp add: valid_date_def date_succ_def)
  qed
qed

lemma days_before_year_nonneg:
  assumes "1 \<le> y"
  shows "0 \<le> days_before_year y"
proof -
  have "(y - 1) div 100 \<le> (y - 1) div 4"
    using assms by (intro zdiv_mono2) simp_all
  moreover have "0 \<le> (y - 1) div 400" and "0 \<le> (y - 1) * 365"
    using assms by simp_all
  ultimately show ?thesis
    by (simp add: days_before_year_def)
qed

lemma days_before_month_nonneg:
  assumes "1 \<le> m" and "m \<le> 12"
  shows "0 \<le> days_before_month y m"
  using month_range[OF assms] by (auto simp: days_before_month_def)

lemma toordinal_pos:
  assumes "valid_date (year t) (month t) (day t)"
  shows "1 \<le> toordinal t"
proof -
  from assms have "0 \<le> days_before_year (year t)"
    and "0 \<le> days_before_month (year t) (month t)" and "1 \<le> day t"
    by (simp_all add: valid_date_def days_before_year_nonneg days_before_month_nonneg)
  then show ?thesis
    by (simp add: toordinal_def ymd2ord_def)
qed

section \<open>Reading and writing timestamps\<close>

lemma re_lit_digit:
  assumes "0 \<le> a" and "a \<le> 9" and "c \<in> {CHR ''-'', CHR '':'', CHR ''T'', CHR ''Z'', CHR '' ''}"
  shows "re_lit c (digit_char a # rest) = []"
  using assms digit_char_props(4-8)[OF assms(1,2)]
  by (auto simp: digit_char_props(3) lower_lits)

lemma re_seq_Nil [simp]: "re_seq (\<lambda>s. []) f s = []"
  by (simp add: re_seq_def)

lemma re_seq_lit_same: "re_seq (re_lit c) f (c # rest) = f () rest"
  by (simp add: re_seq_def)

lemma re_seq_lit_digit:
  assumes "0 \<le> a" and "a \<le> 9" and "c \<in> {CHR ''-'', CHR '':'', CHR ''T'', CHR ''Z'', CHR '' ''}"
  shows "re_seq (re_lit c) f (digit_char a # rest) = []"
  unfolding re_seq_def re_lit_digit[OF assms] by simp

lemma re_two_digits:
  assumes "0 \<le> a" "a \<le> 9" "0 \<le> b" "b \<le> 9"
  shows "re_two (re_range l1 h1) (re_range l2 h2) (digit_char a # digit_char b # rest)
           = (if l1 \<le> a \<and> a \<le> h1 \<and> l2 \<le> b \<and> b \<le> h2 then [(10 * a + b, rest)] else [])"
  using assms by (simp add: re_two_def re_seq_def re_ret_def digit_char_props)

lemma re_m_digits:
  assumes "0 \<le> a" "a \<le> 9" "0 \<le> b" "b \<le> 9"
    and c: "c \<in> {CHR ''-'', CHR '':'', CHR ''T'', CHR ''Z'', CHR '' ''}"
  shows "re_seq re_m (\<lambda>v. re_seq (re_lit c) (K v)) (digit_char a # digit_char b # c # rest)
           = (if (a = 1 \<and> b \<le> 2) \<or> (a = 0 \<and> 1 \<le> b) then K (10 * a + b) () rest else [])"
proof -
  have m: "re_m (digit_char a # digit_char b # c # rest)
      = (if a = 1 \<and> b \<le> 2 then [(10 * a + b, c # rest)] else [])
        @ (if a = 0 \<and> 1 \<le> b then [(10 * a + b, c # rest)] else [])
        @ (if 1 \<le> a then [(a, digit_char b # c # rest)] else [])"
    using assms(1-4) by (simp add: re_m_def re_alt_def re_two_digits digit_char_props)
  show ?thesis
    unfolding re_seq_def[of re_m] m
    using assms(1-4) by (auto simp: re_seq_lit_same re_seq_lit_digit[OF assms(3,4) c])
qed

lemma re_d_digits:
  assumes "0 \<le> a" "a \<le> 9" "0 \<le> b" "b \<le> 9"
    and c: "c \<in> {CHR ''-'', CHR '':'', CHR ''T'', CHR ''Z'', CHR '' ''}"
  shows "re_seq re_d (\<lambda>v. re_seq (re_lit c) (K v)) (digit_char a # digit_char b # c # rest)
           = (if (a = 3 \<and> b \<le> 1) \<or> (1 \<le> a \<and> a \<le> 2) \<or> (a = 0 \<and> 1 \<le> b)
              then K (10 * a + b) () rest else [])"
proof -
  have sp: "re_seq (re_lit CHR '' '') f (digit_char a # r) = []" for f :: "unit \<Rightarrow> int matcher" and r
    using assms(1,2) by (intro re_seq_lit_digit) simp_all
  have m: "re_d (digit_char a # digit_char b # c # rest)
      = (if a = 3 \<and> b \<le> 1 then [(10 * a + b, c # rest)] else [])
        @ (if 1 \<le> a \<and> a \<le> 2 then [(10 * a + b, c # rest)] else [])
        @ (if a = 0 \<and> 1 \<le> b then [(10 * a + b, c # rest)] else [])
        @ (if 1 \<le> a then [(a, digit_char b # c # rest)] else [])"
    using assms(1-4) by (simp add: re_d_def re_alt_def re_two_digits digit_char_props sp)
  show ?thesis
    unfolding re_seq_def[of re_d] m
    using assms(1-4) by (auto simp: re_seq_lit_same re_seq_lit_digit[OF assms(3,4) c])
qed

lemma re_H_digits:
  assumes "0 \<le> a" "a \<le> 9" "0 \<le> b" "b \<le> 9"
    and c: "c \<in> {CHR ''-'', CHR '':'', CHR ''T'', CHR ''Z'', CHR '' ''}"
  shows "re_seq re_H (\<lambda>v. re_seq (re_lit c) (K v)) (digit_char a # digit_char b # c # rest)
           = (if (a = 2 \<and> b \<le> 3) \<or> a \<le> 1 then K (10 * a + b) () rest else [])"
proof -
  have m: "re_H (digit_char a # digit_char b # c # rest)
      = (if a = 2 \<and> b \<le> 3 then [(10 * a + b, c # rest)] else [])
        @ (if a \<le> 1 then [(10 * a + b, c # rest)] else [])
        @ [(a, digit_char b # c # rest)]"
    using assms(1-4) by (simp add: re_H_def re_alt_def re_two_digits digit_char_props)
  show ?thesis
    unfolding re_seq_def[of re_H] m
    using assms(1-4) by (auto simp: re_seq_lit_same re_seq_lit_digit[OF assms(3,4) c])
qed

lemma re_M_digits:
  assumes "0 \<le> a" "a \<le> 9" "0 \<le> b" "b \<le> 9"
    and c: "c \<in> {CHR ''-'', CHR '':'', CHR ''T'', CHR ''Z'', CHR '' ''}"
  shows "re_seq re_M (\<lambda>v. re_seq (re_lit c) (K v)) (digit_char a # digit_char b # c # rest)
           = (if a \<le> 5 then K (10 * a + b) () rest else [])"
proof -
  have m: "re_M (digit_char a # digit_char b # c # rest)
      = (if a \<le> 5 then [(10 * a + b, c # rest)] else [])
        @ [(a, digit_char b # c # rest)]"
    using assms(1-4) by (simp add: re_M_def re_alt_def re_two_digits digit_char_props)
  show ?thesis
    unfolding re_seq_def[of re_M] m
    using assms(1-4) by (auto simp: re_seq_lit_same re_seq_lit_digit[OF assms(3,4) c])
qed

lemma re_S_digits:
  assumes "0 \<le> a" "a \<le> 9" "0 \<le> b" "b \<le> 9"
    and c: "c \<in> {CHR ''-'', CHR '':'', CHR ''T'', CHR ''Z'', CHR '' ''}"
  shows "re_seq re_S (\<lambda>v. re_seq (re_lit c) (K v)) (digit_char a # digit_char b # c # rest)
           = (if (a = 6 \<and> b \<le> 1) \<or> a \<le> 5 then K (10 * a + b) () rest else [])"
proof -
  have m: "re_S (digit_char a # digit_char b # c # rest)
      = (if a = 6 \<and> b \<le> 1 then [(10 * a + b, c # rest)] else [])
        @ (if a \<le> 5 then [(10 * a + b, c # rest)] else [])
        @ [(a, digit_char b # c # rest)]"
    using assms(1-4) by (simp add: re_S_def re_alt_def re_two_digits digit_char_props)
  show ?thesis
    unfolding re_seq_def[of re_S] m
    using assms(1-4) by (auto simp: re_seq_lit_same re_seq_lit_digit[OF assms(3,4) c])
qed

lemma re_Y_digits:
  assumes "0 \<le> a" "a \<le> 9" "0 \<le> b" "b \<le> 9" "0 \<le> c" "c \<le> 9" "0 \<le> d" "d \<le> 9"
  shows "re_seq re_Y K (digit_char a # digit_char b # digit_char c # digit_char d # rest)
           = K (1000 * a + 100 * b + 10 * c + d) rest"
  using assms by (simp add: re_Y_def re_seq_def re_ret_def digit_char_props)

lemma two_digits:
  fixes n :: int
  assumes "0 \<le> n" and "n \<le> 99"
  shows "0 \<le> n div 10" "n div 10 \<le> 9" "0 \<le> n mod 10" "n mod 10 \<le> 9"
    "10 * (n div 10) + n mod 10 = n"
  using assms by presburger+

lemma four_digits:
  fixes y :: int
  assumes "0 \<le> y" and "y \<le> 9999"
  shows "0 \<le> y div 1000" "y div 1000 \<le> 9" "0 \<le> y div 100 mod 10" "y div 100 mod 10 \<le> 9"
    "0 \<le> y div 10 mod 10" "y div 10 mod 10 \<le> 9" "0 \<le> y mod 10" "y mod 10 \<le> 9"
proof -
  show "0 \<le> y div 1000" using assms by simp
  show "y div 1000 \<le> 9" using assms zdiv_mono1[of y 9999 1000] by simp
qed simp_all

lemma four_digits_value:
  fixes y :: int
  shows "1000 * (y div 1000) + 100 * (y div 100 mod 10) + 10 * (y div 10 mod 10) + y mod 10 = y"
proof -
  have a: "y div 100 = 10 * (y div 1000) + y div 100 mod 10"
    using div_mult_mod_eq[of "y div 100" 10] by (simp add: zdiv_zmult2_eq[symmetric])
  have b: "y div 10 = 10 * (y div 100) + y div 10 mod 10"
    using div_mult_mod_eq[of "y div 10" 10] by (simp add: zdiv_zmult2_eq[symmetric])
  have c: "y = 10 * (y div 10) + y mod 10"
    by simp
  show ?thesis
    using a b c by linarith
qed

lemma re_m_fmt2:
  assumes "1 \<le> n" and "n \<le> 12"
    and c: "c \<in> {CHR ''-'', CHR '':'', CHR ''T'', CHR ''Z'', CHR '' ''}"
  shows "re_seq re_m (\<lambda>v. re_seq (re_lit c) (K v)) (fmt2 n @ c # rest) = K n () rest"
proof -
  have r: "0 \<le> n" "n \<le> 99" using assms by simp_all
  have "(n div 10 = 1 \<and> n mod 10 \<le> 2) \<or> (n div 10 = 0 \<and> 1 \<le> n mod 10)"
    using assms(1,2) by presburger
  then show ?thesis
    unfolding fmt2_def using two_digits(5)[OF r]
    by (simp add: re_m_digits[OF two_digits(1-4)[OF r] c])
qed

lemma re_d_fmt2:
  assumes "1 \<le> n" and "n \<le> 31"
    and c: "c \<in> {CHR ''-'', CHR '':'', CHR ''T'', CHR ''Z'', CHR '' ''}"
  shows "re_seq re_d (\<lambda>v. re_seq (re_lit c) (K v)) (fmt2 n @ c # rest) = K n () rest"
proof -
  have r: "0 \<le> n" "n \<le> 99" using assms by simp_all
  have "(n div 10 = 3 \<and> n mod 10 \<le> 1) \<or> (1 \<le> n div 10 \<and> n div 10 \<le> 2)
      \<or> (n div 10 = 0 \<and> 1 \<le> n mod 10)"
    using assms(1,2) by presburger
  then show ?thesis
    unfolding fmt2_def using two_digits(5)[OF r]
    by (simp add: re_d_digits[OF two_digits(1-4)[OF r] c])
qed

lemma re_H_fmt2:
  assumes "0 \<le> n" and "n \<le> 23"
    and c: "c \<in> {CHR ''-'', CHR '':'', CHR ''T'', CHR ''Z'', CHR '' ''}"
  shows "re_seq re_H (\<lambda>v. re_seq (re_lit c) (K v)) (fmt2 n @ c # rest) = K n () rest"
proof -
  have r: "0 \<le> n" "n \<le> 99" using assms by simp_all
  have "(n div 10 = 2 \<and> n mod 10 \<le> 3) \<or> n div 10 \<le> 1"
    using assms(1,2) by presburger
  then show ?thesis
    unfolding fmt2_def using two_digits(5)[OF r]
    by (simp add: re_H_digits[OF two_digits(1-4)[OF r] c])
qed

lemma re_M_fmt2:
  assumes "0 \<le> n" and "n \<le> 59"
    and c: "c \<in> {CHR ''-'', CHR '':'', CHR ''T'', CHR ''Z'', CHR '' ''}"
  shows "re_seq re_M (\<lambda>v. re_seq (re_lit c) (K v)) (fmt2 n @ c # rest) = K n () rest"
proof -
  have r: "0 \<le> n" "n \<le> 99" using assms by simp_all
  have "n div 10 \<le> 5"
    using assms(1,2) by presburger
  then show ?thesis
    unfolding fmt2_def using two_digits(5)[OF r]
    by (simp add: re_M_digits[OF two_digits(1-4)[OF r] c])
qed

lemma re_S_fmt2:
  assumes "0 \<le> n" and "n \<le> 59"
    and c: "c \<in> {CHR ''-'', CHR '':'', CHR ''T'', CHR ''Z'', CHR '' ''}"
  shows "re_seq re_S (\<lambda>v. re_seq (re_lit c) (K v)) (fmt2 n @ c # rest) = K n () rest"
proof -
  have r: "0 \<le> n" "n \<le> 99" using assms by simp_all
  have "n div 10 \<le> 5"
    using assms(1,2) by presburger
  then show ?thesis
    unfolding fmt2_def using two_digits(5)[OF r]
    by (simp add: re_S_digits[OF two_digits(1-4)[OF r] c])
qed

lemma re_Y_fmt4:
  assumes "0 \<le> y" and "y \<le> 9999"
  shows "re_seq re_Y K (fmt4 y @ rest) = K y rest"
  unfolding fmt4_def
  by (simp add: re_Y_digits[OF four_digits[OF assms]] four_digits_value)

lemma format_regex_iso_text:
  assumes "0 \<le> y" "y \<le> 9999" "1 \<le> m" "m \<le> 12" "1 \<le> d" "d \<le> 31"
    "0 \<le> h" "h \<le> 23" "0 \<le> mi" "mi \<le> 59" "0 \<le> s" "s \<le> 59"
  shows "format_regex (iso_text y m d h mi s) = [((y, m, d, h, mi, s), [])]"
  unfolding format_regex_def iso_text_def
  using assms
  by (simp add: re_Y_fmt4 re_seq_lit_same re_m_fmt2 re_d_fmt2 re_H_fmt2 re_M_fmt2 re_S_fmt2
      re_ret_def)

lemma strptime_iso_text:
  assumes "valid_date y m d" "0 \<le> h" "h < 24" "0 \<le> mi" "mi < 60" "0 \<le> s" "s < 60"
  shows "strptime (iso_text y m d h mi s)
           = Inr \<lparr>year = y, month = m, day = d, hour = h, minute = mi, second = s,
                  microsecond = 0\<rparr>"
proof -
  from assms(1) days_in_month_bounds(2)[of y m] have
    r: "0 \<le> y" "y \<le> 9999" "1 \<le> m" "m \<le> 12" "1 \<le> d" "d \<le> 31"
    by (simp_all add: valid_date_def)
  have "format_regex (iso_text y m d h mi s) = [((y, m, d, h, mi, s), [])]"
    using r assms(2-7) by (intro format_regex_iso_text) simp_all
  with assms show ?thesis
    by (simp add: strptime_def)
qed

lemma is_digit_fmt2:
  assumes "0 \<le> n" and "n \<le> 99"
  shows "is_digit (digit_char (n div 10))" and "is_digit (digit_char (n mod 10))"
  using two_digits(1-4)[OF assms] by (simp_all add: digit_char_props(1))

lemma is_digit_fmt4:
  assumes "0 \<le> y" and "y \<le> 9999"
  shows "is_digit (digit_char (y div 1000))" and "is_digit (digit_char (y div 100 mod 10))"
    and "is_digit (digit_char (y div 10 mod 10))" and "is_digit (digit_char (y mod 10))"
proof -
  note f = four_digits[OF assms]
  show "is_digit (digit_char (y div 1000))"
    by (rule digit_char_props(1)[OF f(1,2)])
  show "is_digit (digit_char (y div 100 mod 10))"
    by (rule digit_char_props(1)[OF f(3,4)])
  show "is_digit (digit_char (y div 10 mod 10))"
    by (rule digit_char_props(1)[OF f(5,6)])
  show "is_digit (digit_char (y mod 10))"
    by (rule digit_char_props(1)[OF f(7,8)])
qed

lemma decimal_small: "n < 10 \<Longrightarrow> decimal n = [digit_char (int n)]"
  by (subst decimal.simps) simp

lemma decimal_large: "10 \<le> n \<Longrightarrow> decimal n = decimal (n div 10) @ [digit_char (int (n mod 10))]"
  by (subst decimal.simps) simp

lemma fmt_Y_fmt4:
  assumes "1000 \<le> y" and "y \<le> 9999"
  shows "fmt_Y y = fmt4 y"
proof -
  define n where "n = nat y"
  have n: "1000 \<le> n" "n \<le> 9999" and y: "y = int n"
    using assms by (simp_all add: n_def)
  have d: "n div 10 div 10 = n div 100" "n div 100 div 10 = n div 1000"
    by (simp_all add: div_mult2_eq[symmetric])
  have 1: "decimal n = decimal (n div 10) @ [digit_char (int (n mod 10))]"
    using n by (intro decimal_large) simp
  have 2: "decimal (n div 10) = decimal (n div 100) @ [digit_char (int (n div 10 mod 10))]"
    using n decimal_large[of "n div 10"] by (simp add: d)
  have 3: "decimal (n div 100) = decimal (n div 1000) @ [digit_char (int (n div 100 mod 10))]"
    using n decimal_large[of "n div 100"] by (simp add: d)
  have 4: "decimal (n div 1000) = [digit_char (int (n div 1000))]"
    using n by (intro decimal_small) simp
  have "decimal n = [digit_char (int (n div 1000)), digit_char (int (n div 100 mod 10)),
      digit_char (int (n div 10 mod 10)), digit_char (int (n mod 10))]"
    by (simp add: 1 2 3 4)
  then show ?thesis
    by (simp add: fmt_Y_def fmt4_def n_def[symmetric] y zdiv_int zmod_int)
qed

lemma strftime_iso_text:
  assumes "1000 \<le> year t" and "year t \<le> 9999"
  shows "strftime_iso t = iso_text (year t) (month t) (day t) (hour t) (minute t) (second t)"
  by (simp add: strftime_iso_def iso_text_def fmt_Y_fmt4[OF assms])

lemma strict_format_iso_text:
  assumes "0 \<le> y" "y \<le> 9999" "0 \<le> m" "m \<le> 99" "0 \<le> d" "d \<le> 99"
    "0 \<le> h" "h \<le> 99" "0 \<le> mi" "mi \<le> 99" "0 \<le> s" "s \<le> 99"
  shows "strict_format (iso_text y m d h mi s)"
proof -
  note dg = is_digit_fmt4[OF assms(1,2)] is_digit_fmt2[OF assms(3,4)]
      is_digit_fmt2[OF assms(5,6)] is_digit_fmt2[OF assms(7,8)] is_digit_fmt2[OF assms(9,10)]
      is_digit_fmt2[OF assms(11,12)]
  have "iso_text y m d h mi s =
      [digit_char (y div 1000), digit_char (y div 100 mod 10), digit_char (y div 10 mod 10),
       digit_char (y mod 10), CHR ''-'', digit_char (m div 10), digit_char (m mod 10), CHR ''-'',
       digit_char (d div 10), digit_char (d mod 10), CHR ''T'', digit_char (h div 10),
       digit_char (h mod 10), CHR '':'', digit_char (mi div 10), digit_char (mi mod 10),
       CHR '':'', digit_char (s div 10), digit_char (s mod 10), CHR ''Z'']"
    by (simp add: iso_text_def fmt4_def fmt2_def)
  then show ?thesis
    by (simp add: strict_format_def dg)
qed

lemma last_day: "ymd2ord 9999 12 31 = MAXORDINAL"
  by code_simp

lemma year_date_succ: "year t \<le> year (date_succ t)"
  by (simp add: date_succ_def)

lemma strptime_strftime_iso:
  assumes "valid_datetime t" and "1000 \<le> year t"
  shows "strptime (strftime_iso t) = Inr (t\<lparr>microsecond := 0\<rparr>)"
    and "strict_format (strftime_iso t)"
proof -
  from assms(1) have v: "valid_date (year t) (month t) (day t)"
    and r: "0 \<le> hour t" "hour t < 24" "0 \<le> minute t" "minute t < 60"
      "0 \<le> second t" "second t < 60"
    by (simp_all add: valid_datetime_def)
  from v have y: "year t \<le> 9999" "1 \<le> month t" "month t \<le> 12" "1 \<le> day t"
    by (simp_all add: valid_date_def)
  from v days_in_month_bounds(2)[of "year t" "month t"] have d: "day t \<le> 31"
    by (simp add: valid_date_def)
  have iso: "strftime_iso t
      = iso_text (year t) (month t) (day t) (hour t) (minute t) (second t)"
    using assms(2) y(1) by (rule strftime_iso_text)
  show "strptime (strftime_iso t) = Inr (t\<lparr>microsecond := 0\<rparr>)"
    unfolding iso strptime_iso_text[OF v r] by simp
  show "strict_format (strftime_iso t)"
    unfolding iso using assms(2) y d r by (intro strict_format_iso_text) simp_all
qed

lemma get_utc_start_and_end_general:
  assumes "valid_datetime now" and "1000 \<le> year now" and "toordinal now < MAXORDINAL"
  shows "\<exists>start stop.
           get_utc_start_and_end now = Inr (strftime_iso start, strftime_iso stop)
           \<and> start = now\<lparr>hour := 0, minute := 0, second := 0, microsecond := 0\<rparr>
           \<and> utc_key stop = utc_key start + 26 * 3600
           \<and> valid_datetime stop
           \<and> strict_format (strftime_iso start) \<and> strict_format (strftime_iso stop)
           \<and> strptime (strftime_iso start) = Inr start
           \<and> strptime (strftime_iso stop) = Inr stop"
proof -
  define start where "start = now\<lparr>hour := 0, minute := 0, second := 0, microsecond := 0\<rparr>"
  define stop where "stop = (date_succ start)\<lparr>hour := 2, minute := 0, second := 0\<rparr>"
  from assms(1) have vd: "valid_date (year start) (month start) (day start)"
    by (simp add: valid_datetime_def start_def)
  then have vs: "valid_datetime start"
    by (simp add: valid_datetime_def start_def)
  have ord: "toordinal start = toordinal now"
    by (simp add: toordinal_def start_def)
  have nl: "\<not> (year start = 9999 \<and> month start = 12 \<and> day start = 31)"
    using assms(3) ord last_day by (auto simp: toordinal_def)
  have os: "toordinal (date_succ start) = toordinal start + 1"
    using vd by (rule toordinal_date_succ)
  have flds: "year stop = year (date_succ start)" "month stop = month (date_succ start)"
    "day stop = day (date_succ start)" "hour stop = 2" "minute stop = 0" "second stop = 0"
    "microsecond stop = 0"
    by (simp_all add: stop_def date_succ_def start_def)
  have vstop: "valid_datetime stop"
    using valid_date_succ[OF vd nl] by (simp add: valid_datetime_def flds)
  have ystop: "1000 \<le> year stop"
    using assms(2) year_date_succ[of start] by (simp add: flds start_def)
  have add: "datetime_add start 1 7200 = Inr stop"
    using toordinal_pos[OF vd] assms(3) ord
    by (simp add: datetime_add_def seconds_of_day_def shift_days_def stop_def start_def)
  have run: "get_utc_start_and_end now = Inr (strftime_iso start, strftime_iso stop)"
    using add by (simp add: get_utc_start_and_end_def start_def)
  have key: "utc_key stop = utc_key start + 26 * 3600"
    using os by (simp add: utc_key_def toordinal_def seconds_of_day_def flds start_def)
  have "stop\<lparr>microsecond := 0\<rparr> = stop" "start\<lparr>microsecond := 0\<rparr> = start"
    by (simp_all add: stop_def start_def date_succ_def)
  with strptime_strftime_iso[OF vs] strptime_strftime_iso[OF vstop ystop] assms(2)
  have "strict_format (strftime_iso start)" "strict_format (strftime_iso stop)"
    "strptime (strftime_iso start) = Inr start" "strptime (strftime_iso stop) = Inr stop"
    by (simp_all add: start_def)
  with run key vstop show ?thesis
    unfolding start_def by blast
qed

subsection \<open>What the format accepts\<close>



























lemma strptime_raises: "strptime s = Inl e \<Longrightarrow> e = ValueError"
  by (auto simp: strptime_def split: list.splits prod.splits if_splits)





section \<open>The claims on times\<close>




text \<open>
  C4. \<^verbatim>\<open>get_utc_start_and_end\<close>, called at the clock reading \<open>now\<close> (a valid datetime
  with a four-digit year, before the last day the datetime type holds), returns the pair
  of texts of \<open>start\<close> and \<open>stop\<close>: \<open>start\<close> is midnight of the day of \<open>now\<close>, \<open>stop\<close>
  is 26 hours later on the time line, both texts are in the strict format
  \<^verbatim>\<open>YYYY-MM-DDTHH:MM:SSZ\<close> and read back as \<open>start\<close> and \<open>stop\<close>. Called at
  2024-01-01T00:00:00Z it returns 2024-01-01T00:00:00Z and 2024-01-02T02:00:00Z.
\<close>

theorem get_utc_start_and_end_window:
  "(valid_datetime now \<and> 1000 \<le> year now \<and> toordinal now < MAXORDINAL \<longrightarrow>
      (\<exists>start stop.
           get_utc_start_and_end now = Inr (strftime_iso start, strftime_iso stop)
           \<and> start = now\<lparr>hour := 0, minute := 0, second := 0, microsecond := 0\<rparr>
           \<and> utc_key stop = utc_key start + 26 * 3600
           \<and> valid_datetime stop
           \<and> strict_format (strftime_iso start) \<and> strict_format (strftime_iso stop)
           \<and> strptime (strftime_iso start) = Inr start
           \<and> strptime (strftime_iso stop) = Inr stop))
   \<and> get_utc_start_and_end
         \<lparr>year = 2024, month = 1, day = 1, hour = 0, minute = 0, second = 0, microsecond = 0\<rparr>
       = Inr (''2024-01-01T00:00:00Z'', ''2024-01-02T02:00:00Z'')"
proof -
  have "get_utc_start_and_end
         \<lparr>year = 2024, month = 1, day = 1, hour = 0, minute = 0, second = 0, microsecond = 0\<rparr>
       = Inr (''2024-01-01T00:00:00Z'', ''2024-01-02T02:00:00Z'')"
    by code_simp
  with get_utc_start_and_end_general[of now] show ?thesis
    by blast
qed

text \<open>At 15:30:45 UTC on 4 July 2024 the window runs from that midnight to 02:00 on 5 July.\<close>

theorem get_utc_start_and_end_window_witness:
  "valid_datetime fixture_clock \<and> 1000 \<le> year fixture_clock
   \<and> toordinal fixture_clock < MAXORDINAL
   \<and> get_utc_start_and_end fixture_clock = Inr (''2024-07-04T00:00:00Z'', ''2024-07-05T02:00:00Z'')
   \<and> (\<exists>start stop.
         get_utc_start_and_end fixture_clock = Inr (strftime_iso start, strftime_iso stop)
         \<and> utc_key stop = utc_key start + 26 * 3600)"
proof -
  have h: "valid_datetime fixture_clock \<and> 1000 \<le> year fixture_clock
      \<and> toordinal fixture_clock < MAXORDINAL"
    by code_simp
  have r: "get_utc_start_and_end fixture_clock
      = Inr (''2024-07-04T00:00:00Z'', ''2024-07-05T02:00:00Z'')"
    by code_simp
  from get_utc_start_and_end_window[of fixture_clock] h
  have "\<exists>start stop.
         get_utc_start_and_end fixture_clock = Inr (strftime_iso start, strftime_iso stop)
         \<and> utc_key stop = utc_key start + 26 * 3600"
    by blast
  with h r show ?thesis
    by blast
qed

section \<open>The entry point\<close>

lemma bnd_raises:
  assumes "bnd r f = Inl e"
    and "\<And>e. r = Inl e \<Longrightarrow> P e" and "\<And>v e. f v = Inl e \<Longrightarrow> P e"
  shows "P e"
  using assms by (cases r) auto

lemma py_get_raises: "py_get x k = Inl e \<Longrightarrow> isinstance_Exception e"
  by (cases x) (auto split: option.splits)

lemma py_getitem_raises: "py_getitem x k = Inl e \<Longrightarrow> isinstance_Exception e"
  by (cases x) (auto split: option.splits)

lemma py_iter_raises: "py_iter x = Inl e \<Longrightarrow> isinstance_Exception e"
  by (cases x) auto

lemma py_lower_raises: "py_lower x = Inl e \<Longrightarrow> isinstance_Exception e"
  by (cases x) auto

lemma py_first_raises: "py_first x = Inl e \<Longrightarrow> isinstance_Exception e"
  by (cases x rule: py_first.cases) auto

lemma datetime_add_raises: "datetime_add t dd ss = Inl e \<Longrightarrow> e = OverflowError"
  by (auto simp: datetime_add_def Let_def split: if_splits)

lemma convert_utc_to_est_raises:
  "convert_utc_to_est est s = Inl e \<Longrightarrow> e = ValueError \<or> e = IndexError \<or> e = OverflowError"
  by (auto simp: convert_utc_to_est_def bnd_eq_Inl fromutc_def
      dest: strptime_raises datetime_add_raises split: if_splits)

lemma convert_arg_raises: "convert_arg est x = Inl e \<Longrightarrow> isinstance_Exception e"
  by (cases x) (auto dest: convert_utc_to_est_raises)

lemma team_name_raises: "team_name g side = Inl e \<Longrightarrow> isinstance_Exception e"
  unfolding team_name_def
  by (erule bnd_raises; (erule py_getitem_raises)?)+

lemma event_step_raises: "event_step ev info = Inl e \<Longrightarrow> isinstance_Exception e"
  unfolding event_step_def
  by (auto simp: bnd_eq_Inl dest: py_getitem_raises py_lower_raises
      split: if_splits option.splits)

lemma events_loop_raises: "events_loop evs info = Inl e \<Longrightarrow> isinstance_Exception e"
  by (induction evs arbitrary: info) (auto dest: event_step_raises split: sum.splits)

lemma game_body_raises: "game_body est events g = Inl e \<Longrightarrow> isinstance_Exception e"
  unfolding game_body_def
  by (auto simp: bnd_eq_Inl dest: py_getitem_raises convert_arg_raises team_name_raises
      py_iter_raises events_loop_raises)

lemma games_loop_raises: "games_loop est events gs acc = Inl e \<Longrightarrow> isinstance_Exception e"
  by (induction gs arbitrary: acc) (auto dest: game_body_raises split: sum.splits)

lemma process_game_data_raises:
  assumes "process_game_data est data events_call = Inl e"
  shows "events_call = Inl e \<or> isinstance_Exception e"
  using assms unfolding process_game_data_def
  by (auto simp: bnd_eq_Inl dest: py_get_raises py_first_raises py_iter_raises games_loop_raises)

lemma get_utc_start_and_end_raises: "get_utc_start_and_end now = Inl e \<Longrightarrow> e = OverflowError"
  by (auto simp: get_utc_start_and_end_def Let_def bnd_eq_Inl dest: datetime_add_raises)

lemma fetch_events_raises:
  assumes "fetch_events now api = Inl e"
  shows "isinstance_Exception e \<or> (\<exists>a b. api a b = Inl e)
           \<or> (\<exists>a b resp. api a b = Inr resp \<and> json_body resp = Inl e)"
  using assms unfolding fetch_events_def
  by (auto simp: bnd_eq_Inl dest: get_utc_start_and_end_raises split: if_splits prod.splits)

lemma main_try_raises:
  assumes "main_try w = Inl e"
    and "\<And>e. delete_from_s3 w = Inl e \<Longrightarrow> isinstance_Exception e"
    and "\<And>e. get_schedule w = Inl e \<Longrightarrow> isinstance_Exception e"
    and "\<And>a b e. odds_api w a b = Inl e \<Longrightarrow> isinstance_Exception e"
    and "\<And>a b resp e. odds_api w a b = Inr resp \<Longrightarrow> json_body resp = Inl e
           \<Longrightarrow> isinstance_Exception e"
    and "\<And>games e. save_schedule w games = Inl e \<Longrightarrow> isinstance_Exception e"
    and "\<And>e. upload_to_s3 w = Inl e \<Longrightarrow> isinstance_Exception e"
  shows "isinstance_Exception e"
proof -
  have ev: "isinstance_Exception e'" if "fetch_events (clock w) (odds_api w) = Inl e'" for e'
    using fetch_events_raises[OF that] assms(4,5) by blast
  have pr: "isinstance_Exception e'"
    if "process_game_data (est_zone w) d (fetch_events (clock w) (odds_api w)) = Inl e'" for e' d
    using process_game_data_raises[OF that] ev by blast
  from assms(1) show ?thesis
    unfolding main_try_def
    by (auto simp: bnd_eq_Inl dest: assms(2,3,6,7) pr)
qed

lemma main_try_success: "main_try w = Inr printed \<Longrightarrow> printed = [Success_line]"
  by (auto simp: main_try_def bnd_eq_Inr)

text \<open>An exception that derives from \<^verbatim>\<open>BaseException\<close> only is not caught.\<close>

lemma main_lets_others_through:
  "main_try w = Inl e \<Longrightarrow> \<not> isinstance_Exception e \<Longrightarrow> main w = Inl e"
  by (simp add: main_def)

text \<open>
  C8. Every exception of the generic class \<^verbatim>\<open>Exception\<close> that a stage raises is
  caught by \<^verbatim>\<open>main\<close>: when the collaborators (the object store, the two APIs, the
  file system) raise instances of \<^verbatim>\<open>Exception\<close> only, every exception the pipeline
  raises, also inside record building and the time functions, is such an instance, and
  \<^verbatim>\<open>main\<close> returns to its caller either way: having printed the success line when no
  stage raised, and having printed the one line with the message of the exception when a
  stage raised. Nothing but the printed line tells the two apart.
\<close>

theorem main_catches_every_Exception:
  assumes "\<And>e. delete_from_s3 w = Inl e \<Longrightarrow> isinstance_Exception e"
    and "\<And>e. get_schedule w = Inl e \<Longrightarrow> isinstance_Exception e"
    and "\<And>a b e. odds_api w a b = Inl e \<Longrightarrow> isinstance_Exception e"
    and "\<And>a b resp e. odds_api w a b = Inr resp \<Longrightarrow> json_body resp = Inl e
           \<Longrightarrow> isinstance_Exception e"
    and "\<And>games e. save_schedule w games = Inl e \<Longrightarrow> isinstance_Exception e"
    and "\<And>e. upload_to_s3 w = Inl e \<Longrightarrow> isinstance_Exception e"
  shows "(main_try w = Inr [Success_line] \<and> main w = Inr [Success_line])
         \<or> (\<exists>e. main_try w = Inl e \<and> isinstance_Exception e \<and> main w = Inr [Error_line e])"
proof (cases "main_try w")
  case (Inl e)
  from main_try_raises[OF Inl assms] have "isinstance_Exception e" .
  with Inl show ?thesis
    by (simp add: main_def)
next
  case (Inr printed)
  with main_try_success[OF Inr] show ?thesis
    by (simp add: main_def)
qed

text \<open>
  A run with an empty list of dates, a run whose upload fails and a run without fault.
\<close>

theorem main_catches_every_Exception_witness:
  "main (fixture_world\<lparr>get_schedule := Inr (JObj [(''dates'', JArr [])])\<rparr>)
     = Inr [Error_line IndexError]
   \<and> main (fixture_world\<lparr>upload_to_s3 := Inl OSError\<rparr>) = Inr [Error_line OSError]
   \<and> main fixture_world = Inr [Success_line]"
proof -
  define w1 where "w1 = fixture_world\<lparr>get_schedule := Inr (JObj [(''dates'', JArr [])])\<rparr>"
  define w2 where "w2 = fixture_world\<lparr>upload_to_s3 := Inl OSError\<rparr>"
  have t1: "main_try w1 = Inl IndexError"
    unfolding w1_def by code_simp
  have t2: "main_try w2 = Inl OSError"
    unfolding w2_def by code_simp
  have t3: "main_try fixture_world = Inr [Success_line]"
    by code_simp
  have "(main_try w1 = Inr [Success_line] \<and> main w1 = Inr [Success_line])
      \<or> (\<exists>e. main_try w1 = Inl e \<and> isinstance_Exception e \<and> main w1 = Inr [Error_line e])"
    by (rule main_catches_every_Exception) (auto simp: w1_def fixture_world_def)
  with t1 have m1: "main w1 = Inr [Error_line IndexError]"
    by simp
  have "(main_try w2 = Inr [Success_line] \<and> main w2 = Inr [Success_line])
      \<or> (\<exists>e. main_try w2 = Inl e \<and> isinstance_Exception e \<and> main w2 = Inr [Error_line e])"
    by (rule main_catches_every_Exception) (auto simp: w2_def fixture_world_def)
  with t2 have m2: "main w2 = Inr [Error_line OSError]"
    by simp
  have "(main_try fixture_world = Inr [Success_line] \<and> main fixture_world = Inr [Success_line])
      \<or> (\<exists>e. main_try fixture_world = Inl e \<and> isinstance_Exception e
            \<and> main fixture_world = Inr [Error_line e])"
    by (rule main_catches_every_Exception) (auto simp: fixture_world_def)
  with t3 have m3: "main fixture_world = Inr [Success_line]"
    by simp
  from m1 m2 m3 show ?thesis
    by (simp add: w1_def w2_def)
qed

end
